theory Spec2Isabelle
  imports Complex_Main
begin

section \<open>Numbers\<close>

text \<open>
  The likelihood in \<^verbatim>\<open>custom_likelihoods.py\<close> computes on float64 tensors. The
  inputs \<open>F\<close> and \<open>Y\<close> hold finite numbers. Rounding to 53 bits is not modelled
  anywhere: a result that stays inside the float64 range is the exact real.

  The log-density is followed on the singularities of its functions only: the logarithm
  of a non-positive number and the log-gamma function at a pole give \<open>\<plusminus>Inf\<close> or
  \<open>NaN\<close> instead of raising. A value of type \<open>fl\<close> is either \<open>Some r\<close>, the finite
  number \<open>r\<close>, or \<open>None\<close>, a non-finite result (an infinity or a NaN). The operations
  that follow a non-finite value there are additions, subtractions and multiplications
  by a non-zero finite number only, and none of them leads back to a finite value, so
  the two kinds of non-finite value need not be told apart.
\<close>

type_synonym fl = "real option"

definition fadd :: "fl \<Rightarrow> fl \<Rightarrow> fl" where
  "fadd a b = (case a of None \<Rightarrow> None
               | Some x \<Rightarrow> (case b of None \<Rightarrow> None | Some y \<Rightarrow> Some (x + y)))"

definition fsub :: "fl \<Rightarrow> fl \<Rightarrow> fl" where
  "fsub a b = (case a of None \<Rightarrow> None
               | Some x \<Rightarrow> (case b of None \<Rightarrow> None | Some y \<Rightarrow> Some (x - y)))"

definition fmul :: "fl \<Rightarrow> fl \<Rightarrow> fl" where
  "fmul a b = (case a of None \<Rightarrow> None
               | Some x \<Rightarrow> (case b of None \<Rightarrow> None | Some y \<Rightarrow> Some (x * y)))"

text \<open>\<^verbatim>\<open>log\<close>: \<open>-Inf\<close> at zero and NaN below it.\<close>

definition tf_log :: "real \<Rightarrow> fl" where
  "tf_log y = (if 0 < y then Some (ln y) else None)"

text \<open>
  \<^verbatim>\<open>tf.math.xlogy(x, y)\<close>: zero where \<open>x = 0\<close>, whatever \<open>y\<close> is, and
  \<open>x * log y\<close> elsewhere.
\<close>

definition xlogy :: "real \<Rightarrow> real \<Rightarrow> fl" where
  "xlogy x y = (if x = 0 then Some 0 else fmul (Some x) (tf_log y))"

text \<open>
  The gamma function, by Euler's limit
  \<open>\<Gamma>(x) = lim n! n\<^sup>x / (x (x + 1) \<dots> (x + n))\<close>, and \<^verbatim>\<open>tf.math.lgamma\<close>, which
  is \<open>ln |\<Gamma>(x)|\<close> and \<open>+Inf\<close> at the poles \<open>0, -1, -2, \<dots>\<close>.
\<close>

definition Gamma_series :: "real \<Rightarrow> nat \<Rightarrow> real" where
  "Gamma_series x n = fact n * real n powr x / (\<Prod>k = 0..n. x + real k)"

definition Gamma :: "real \<Rightarrow> real" where
  "Gamma x = lim (Gamma_series x)"

definition pole :: "real \<Rightarrow> bool" where
  "pole x \<longleftrightarrow> x \<le> 0 \<and> x \<in> \<int>"

definition lgamma :: "real \<Rightarrow> fl" where
  "lgamma x = (if pole x then None else Some (ln \<bar>Gamma x\<bar>))"

section \<open>The float64 range\<close>

text \<open>
  The moments and the sampler add, multiply, square and divide exponentials, and these
  results leave the float64 range for moderate latent values. For them a float64 value
  is a finite real, an infinity or a NaN, and every arithmetic result is brought into
  the range by \<open>rnd\<close>: at or beyond \<^verbatim>\<open>2^1024 - 2^970\<close> (the midpoint between
  the largest float64 and \<^verbatim>\<open>2^1024\<close>) it is an infinity, at or below
  \<^verbatim>\<open>2^-1075\<close> (half the smallest subnormal) it is zero. Between the two
  thresholds the exact real stands for its nearest float64. That is accurate to 53 bits
  for a \<open>normal\<close> result, of magnitude at least \<^verbatim>\<open>2^-1022\<close>, and loses precision
  below; statements that compare values assume normal results. The two zeros of float64
  are not told apart: a zero divisor is \<open>+0\<close>.
\<close>

datatype f64 = Fin real | PInf | NInf | NaN

definition f64_overflow :: real where
  "f64_overflow = 2 ^ 1024 - 2 ^ 970"

definition f64_underflow :: real where
  "f64_underflow = 1 / 2 ^ 1075"

definition f64_min_normal :: real where
  "f64_min_normal = 1 / 2 ^ 1022"

definition rnd :: "real \<Rightarrow> f64" where
  "rnd r = (if f64_overflow \<le> r then PInf
            else if r \<le> - f64_overflow then NInf
            else if \<bar>r\<bar> \<le> f64_underflow then Fin 0
            else Fin r)"

definition normal :: "real \<Rightarrow> bool" where
  "normal r \<longleftrightarrow> r = 0 \<or> (f64_min_normal \<le> \<bar>r\<bar> \<and> \<bar>r\<bar> < f64_overflow)"

fun f64_neg :: "f64 \<Rightarrow> f64" where
  "f64_neg (Fin x) = Fin (- x)"
| "f64_neg PInf = NInf"
| "f64_neg NInf = PInf"
| "f64_neg NaN = NaN"

fun f64_add :: "f64 \<Rightarrow> f64 \<Rightarrow> f64" where
  "f64_add (Fin x) (Fin y) = rnd (x + y)"
| "f64_add NaN b = NaN"
| "f64_add a NaN = NaN"
| "f64_add PInf NInf = NaN"
| "f64_add NInf PInf = NaN"
| "f64_add PInf b = PInf"
| "f64_add a PInf = PInf"
| "f64_add NInf b = NInf"
| "f64_add a NInf = NInf"

definition f64_sub :: "f64 \<Rightarrow> f64 \<Rightarrow> f64" where
  "f64_sub a b = f64_add a (f64_neg b)"

fun f64_mul :: "f64 \<Rightarrow> f64 \<Rightarrow> f64" where
  "f64_mul (Fin x) (Fin y) = rnd (x * y)"
| "f64_mul NaN b = NaN"
| "f64_mul a NaN = NaN"
| "f64_mul (Fin x) PInf = (if x = 0 then NaN else if 0 < x then PInf else NInf)"
| "f64_mul (Fin x) NInf = (if x = 0 then NaN else if 0 < x then NInf else PInf)"
| "f64_mul PInf (Fin y) = (if y = 0 then NaN else if 0 < y then PInf else NInf)"
| "f64_mul NInf (Fin y) = (if y = 0 then NaN else if 0 < y then NInf else PInf)"
| "f64_mul PInf PInf = PInf"
| "f64_mul PInf NInf = NInf"
| "f64_mul NInf PInf = NInf"
| "f64_mul NInf NInf = PInf"

fun f64_div :: "f64 \<Rightarrow> f64 \<Rightarrow> f64" where
  "f64_div (Fin x) (Fin y) =
     (if y = 0 then (if x = 0 then NaN else if 0 < x then PInf else NInf) else rnd (x / y))"
| "f64_div NaN b = NaN"
| "f64_div a NaN = NaN"
| "f64_div (Fin x) b = Fin 0"
| "f64_div PInf (Fin y) = (if 0 \<le> y then PInf else NInf)"
| "f64_div NInf (Fin y) = (if 0 \<le> y then NInf else PInf)"
| "f64_div a b = NaN"

text \<open>\<^verbatim>\<open>x ** 2\<close>.\<close>

definition f64_square :: "f64 \<Rightarrow> f64" where
  "f64_square x = f64_mul x x"

section \<open>Tensors\<close>

text \<open>
  A rank-1 tensor is a list and a rank-2 tensor a list of rows; the last axis is the
  category axis of length \<open>K\<close>. A binary operation of the backend broadcasts: along
  an axis the two lengths are equal, or one of them is 1 and that operand is repeated;
  anything else is the backend's \<^verbatim>\<open>InvalidArgumentError\<close>.
\<close>

datatype tf_error = InvalidArgumentError

definition bind_e :: "'e + 'a \<Rightarrow> ('a \<Rightarrow> 'e + 'b) \<Rightarrow> 'e + 'b" where
  "bind_e r f = (case r of Inl e \<Rightarrow> Inl e | Inr x \<Rightarrow> f x)"

fun collect :: "('e + 'a) list \<Rightarrow> 'e + 'a list" where
  "collect [] = Inr []"
| "collect (r # rs) = bind_e r (\<lambda>x. bind_e (collect rs) (\<lambda>xs. Inr (x # xs)))"

definition bcast :: "('a \<Rightarrow> 'b \<Rightarrow> 'c) \<Rightarrow> 'a list \<Rightarrow> 'b list \<Rightarrow> tf_error + 'c list" where
  "bcast f xs ys =
     (if length xs = length ys then Inr (map2 f xs ys)
      else if length xs = 1 then Inr (map (f (hd xs)) ys)
      else if length ys = 1 then Inr (map (\<lambda>x. f x (hd ys)) xs)
      else Inl InvalidArgumentError)"

definition bcast2 ::
  "('a \<Rightarrow> 'b \<Rightarrow> 'c) \<Rightarrow> 'a list list \<Rightarrow> 'b list list \<Rightarrow> tf_error + 'c list list" where
  "bcast2 f A B = bind_e (bcast (bcast f) A B) collect"

text \<open>
  \<^verbatim>\<open>tf.reduce_sum(t, axis=-1)\<close>, on the values of the log-density and on float64
  values. The float64 sum accumulates from left to right; for entries of one sign the
  order does not change whether the sum leaves the range.
\<close>

definition fsum :: "fl list \<Rightarrow> fl" where
  "fsum xs = foldr fadd xs (Some 0)"

definition reduce_sum_fl :: "fl list list \<Rightarrow> fl list" where
  "reduce_sum_fl t = map fsum t"

definition f64_sum :: "f64 list \<Rightarrow> f64" where
  "f64_sum xs = foldl f64_add (Fin 0) xs"

definition f64_reduce_sum :: "f64 list list \<Rightarrow> f64 list" where
  "f64_reduce_sum t = map f64_sum t"

text \<open>\<^verbatim>\<open>t[..., tf.newaxis]\<close> on a rank-1 tensor.\<close>

definition newaxis :: "'a list \<Rightarrow> 'a list list" where
  "newaxis t = map (\<lambda>s. [s]) t"

text \<open>An operation with a Python scalar, applied to every entry.\<close>

definition scalar_op :: "('a \<Rightarrow> 'b) \<Rightarrow> 'a list list \<Rightarrow> 'b list list" where
  "scalar_op f t = map (map f) t"

text \<open>\<^verbatim>\<open>F + c\<close> for a scalar \<open>c\<close>.\<close>

definition add_scalar :: "real list list \<Rightarrow> real \<Rightarrow> real list list" where
  "add_scalar F c = scalar_op (\<lambda>f. f + c) F"

text \<open>
  \<^verbatim>\<open>tf.exp\<close>, the default inverse link, as the function it computes. A link is
  given by its exact values; \<open>float_link\<close> below is the float64 tensor the moments
  receive.
\<close>

definition tf_exp :: "real list list \<Rightarrow> real list list" where
  "tf_exp t = map (map exp) t"

text \<open>
  \<^verbatim>\<open>tf.math.lbeta(x)\<close> reduces the last axis:
  \<open>sum (lgamma x) - lgamma (sum x)\<close>.
\<close>

definition lbeta_row :: "real list \<Rightarrow> fl" where
  "lbeta_row x = fsub (fsum (map lgamma x)) (lgamma (sum_list x))"

definition lbeta :: "real list list \<Rightarrow> fl list" where
  "lbeta x = map lbeta_row x"

section \<open>The likelihood\<close>

text \<open>
  The object: what the framework's initialiser set up, the inverse link and the
  Monte Carlo sample count.
\<close>

record 'b Dirichlet =
  base :: 'b
  invlink :: "real list list \<Rightarrow> real list list"
  num_monte_carlo_points :: int

text \<open>
  \<^verbatim>\<open>__init__(self, invlink=tf.exp, **kwargs)\<close>. The framework's initialiser is a
  parameter \<open>super_init\<close>; it may reject the keyword arguments. \<open>None\<close> for the
  link is the omitted argument.
\<close>

definition Dirichlet_init ::
  "('kw \<Rightarrow> 'e + 'b) \<Rightarrow> (real list list \<Rightarrow> real list list) option \<Rightarrow> 'kw \<Rightarrow> 'e + 'b Dirichlet" where
  "Dirichlet_init super_init invlink_arg kwargs =
     bind_e (super_init kwargs) (\<lambda>b.
       Inr \<lparr>base = b,
            invlink = (case invlink_arg of None \<Rightarrow> tf_exp | Some l \<Rightarrow> l),
            num_monte_carlo_points = 100\<rparr>)"

text \<open>The static method \<^verbatim>\<open>_log_prob(concentration, y)\<close>.\<close>

definition static_log_prob :: "real list list \<Rightarrow> real list list \<Rightarrow> tf_error + fl list" where
  "static_log_prob concentration y =
     bind_e (bcast2 xlogy (scalar_op (\<lambda>a. a - 1) concentration) y) (\<lambda>t.
       bcast fsub (reduce_sum_fl t) (lbeta concentration))"

definition log_prob :: "'b Dirichlet \<Rightarrow> real list list \<Rightarrow> real list list \<Rightarrow> tf_error + fl list" where
  "log_prob self F Y = static_log_prob (invlink self F) Y"

text \<open>
  The static method \<^verbatim>\<open>_sample_dir(concentration, n, seed)\<close>. The sampler
  \<^verbatim>\<open>tf.random.gamma(shape=[n], alpha=concentration, seed=seed)\<close> is the parameter
  \<open>random_gamma\<close>. It reads and advances the state of the process's random
  generator, which the code neither sets nor resets; it returns \<open>n\<close> rows of
  draws and the new state.
\<close>

definition static_sample_dir ::
  "('st \<Rightarrow> nat \<Rightarrow> real list \<Rightarrow> int option \<Rightarrow> real list list \<times> 'st)
     \<Rightarrow> 'st \<Rightarrow> real list \<Rightarrow> nat \<Rightarrow> int option \<Rightarrow> (tf_error + f64 list list) \<times> 'st" where
  "static_sample_dir random_gamma st concentration n seed =
     (case random_gamma st n concentration seed of
        (draws, st') \<Rightarrow>
          (let gamma_sample = scalar_op rnd draws
           in (bcast2 f64_div gamma_sample (newaxis (f64_reduce_sum gamma_sample)), st')))"

text \<open>The float64 tensor \<^verbatim>\<open>self.invlink(F)\<close>: the link's values in the float64 range.\<close>

definition float_link :: "'b Dirichlet \<Rightarrow> real list list \<Rightarrow> f64 list list" where
  "float_link self F = scalar_op rnd (invlink self F)"

definition conditional_mean :: "'b Dirichlet \<Rightarrow> real list list \<Rightarrow> tf_error + f64 list list" where
  "conditional_mean self F =
     (let concentration = float_link self F;
          concentration_sum = newaxis (f64_reduce_sum concentration)
      in bcast2 f64_div concentration concentration_sum)"

definition conditional_variance :: "'b Dirichlet \<Rightarrow> real list list \<Rightarrow> tf_error + f64 list list" where
  "conditional_variance self F =
     (let concentration = float_link self F;
          c_sum = newaxis (f64_reduce_sum concentration)
      in bind_e (bcast2 f64_sub c_sum concentration) (\<lambda>d.
         bind_e (bcast2 f64_mul concentration d) (\<lambda>num.
         bind_e (bcast2 f64_mul (scalar_op f64_square c_sum)
                                (scalar_op (\<lambda>s. f64_add s (Fin 1)) c_sum)) (\<lambda>den.
           bcast2 f64_div num den))))"

section \<open>The reference density\<close>





section \<open>Results inside the float64 range\<close>

text \<open>
  A non-negative float64 value: a non-negative number or \<open>+Inf\<close>.
\<close>

definition f64_nonneg :: "f64 \<Rightarrow> bool" where
  "f64_nonneg x = (case x of Fin v \<Rightarrow> 0 \<le> v | PInf \<Rightarrow> True | NInf \<Rightarrow> False | NaN \<Rightarrow> False)"

text \<open>
  The non-negative values that \<open>rnd\<close> returns: zero, a number between the two
  thresholds, or \<open>+Inf\<close>.
\<close>

definition f64_nonneg_repr :: "f64 \<Rightarrow> bool" where
  "f64_nonneg_repr x =
     (case x of Fin a \<Rightarrow> a = 0 \<or> (f64_underflow < a \<and> a < f64_overflow)
      | PInf \<Rightarrow> True | NInf \<Rightarrow> False | NaN \<Rightarrow> False)"

text \<open>A finite float64 value.\<close>

definition f64_finite :: "f64 \<Rightarrow> bool" where
  "f64_finite x = (case x of Fin v \<Rightarrow> True | PInf \<Rightarrow> False | NInf \<Rightarrow> False | NaN \<Rightarrow> False)"

text \<open>
  The normalisation of a row \<open>\<alpha>\<close> stays inside the normal range: no entry and no
  quotient \<open>\<alpha>\<^sub>k / S\<close> underflows, and the row sum \<open>S\<close> neither underflows nor
  overflows.
\<close>

definition mean_in_range :: "real list \<Rightarrow> bool" where
  "mean_in_range alpha \<longleftrightarrow>
     list_all (\<lambda>a. normal a \<and> normal (a / sum_list alpha)) alpha
     \<and> f64_min_normal \<le> sum_list alpha \<and> sum_list alpha < f64_overflow"

text \<open>
  Every intermediate result of the variance of a row \<open>\<alpha>\<close>, and of \<open>m (1 - m) / (S + 1)\<close>
  computed from its mean \<open>m\<close>, stays inside the normal range.
\<close>

definition variance_in_range :: "real list \<Rightarrow> bool" where
  "variance_in_range alpha \<longleftrightarrow>
     (let s = sum_list alpha
      in s < f64_overflow \<and> normal (s + 1) \<and> normal (s\<^sup>2) \<and> normal (s\<^sup>2 * (s + 1))
         \<and> list_all (\<lambda>a. normal a \<and> normal (s - a) \<and> normal (a * (s - a))
                          \<and> normal (a * (s - a) / (s\<^sup>2 * (s + 1)))
                          \<and> normal (a / s) \<and> normal (1 - a / s)
                          \<and> normal (a / s * (1 - a / s))) alpha)"

section \<open>Concrete objects\<close>

text \<open>
  A likelihood built with the default link, a framework initialiser that accepts its
  keyword arguments, a gamma sampler whose state counts the calls made so far (the
  \<open>k\<close>-th entry of every row it draws is \<open>1 + k * state\<close>), and a gamma sampler
  whose draws are all \<open>f64_large\<close>, the largest power of two in float64.
\<close>

definition f64_large :: real where
  "f64_large = 2 ^ 1023"

definition default_likelihood :: "unit Dirichlet" where
  "default_likelihood = \<lparr>base = (), invlink = tf_exp, num_monte_carlo_points = 100\<rparr>"

definition accept_kwargs :: "unit \<Rightarrow> tf_error + unit" where
  "accept_kwargs kwargs = Inr ()"

definition counter_gamma :: "nat \<Rightarrow> nat \<Rightarrow> real list \<Rightarrow> int option \<Rightarrow> real list list \<times> nat" where
  "counter_gamma st n concentration seed =
     (replicate n (map (\<lambda>k. 1 + real (k * st)) [0..<length concentration]), Suc st)"

definition large_gamma :: "unit \<Rightarrow> nat \<Rightarrow> real list \<Rightarrow> int option \<Rightarrow> real list list \<times> unit" where
  "large_gamma st n concentration seed = (replicate n (map (\<lambda>a. f64_large) concentration), st)"

section \<open>Bounds on the float64 range\<close>

text \<open>
  \<open>1/2 \<le> ln 2 \<le> 3/4\<close> compares exponentials with powers of two, which places
  \<open>exp 400\<close> inside the range and \<open>exp 800\<close>, \<open>exp 1000\<close> and \<open>exp (-1000)\<close>
  outside.
\<close>

lemma ln2_ge: "1 / 2 \<le> ln (2::real)"
proof -
  have "exp (1 / 2 :: real) \<le> 1 + 1 / 2 + (1 / 2)\<^sup>2"
    by (rule exp_bound) simp_all
  also have "\<dots> \<le> 2" by (simp add: power2_eq_square)
  finally have "exp (1 / 2 :: real) \<le> exp (ln 2)" by simp
  then show ?thesis by (simp only: exp_le_cancel_iff)
qed

lemma ln2_le: "ln (2::real) \<le> 3 / 4"
proof -
  have "(2::real) \<le> 1 + 3 / 4 + (3 / 4)\<^sup>2 / 2" by (simp add: power2_eq_square)
  also have "\<dots> \<le> exp (3 / 4)"
    by (rule exp_lower_Taylor_quadratic) simp
  finally have "exp (ln 2) \<le> exp (3 / 4 :: real)" by simp
  then show ?thesis by (simp only: exp_le_cancel_iff)
qed

lemma pow2_exp: "(2::real) ^ n = exp (real n * ln 2)"
  by (simp add: exp_of_nat_mult)

lemma pow2_le_exp: "3 * real n \<le> 4 * x \<Longrightarrow> 2 ^ n \<le> exp x"
proof -
  assume a: "3 * real n \<le> 4 * x"
  have "real n * ln 2 \<le> real n * (3 / 4)"
    by (rule mult_left_mono[OF ln2_le]) simp
  also have "\<dots> \<le> x" using a by simp
  finally show ?thesis by (simp add: pow2_exp)
qed

lemma exp_le_pow2: "2 * x \<le> real n \<Longrightarrow> exp x \<le> 2 ^ n"
proof -
  assume a: "2 * x \<le> real n"
  have "x \<le> real n * (1 / 2)" using a by simp
  also have "\<dots> \<le> real n * ln 2"
    by (rule mult_left_mono[OF ln2_ge]) simp
  finally show ?thesis by (simp add: pow2_exp)
qed

lemma exp_minus_le_pow2: "3 * real n \<le> 4 * x \<Longrightarrow> exp (- x) \<le> 1 / 2 ^ n"
  using pow2_le_exp[of n x] by (simp add: exp_minus field_simps)

lemma pow2_le_exp_minus: "2 * x \<le> real n \<Longrightarrow> 1 / 2 ^ n \<le> exp (- x)"
  using exp_le_pow2[of x n] by (simp add: exp_minus field_simps)

lemma overflow_gt: "2 ^ 1023 < f64_overflow"
  by (simp add: f64_overflow_def)

lemma overflow_le: "f64_overflow \<le> 2 ^ 1024"
  by (simp add: f64_overflow_def)

lemma overflow_pos: "0 < f64_overflow"
  using overflow_gt by (rule less_trans[rotated]) simp

lemma underflow_pos: "0 < f64_underflow"
  by (simp add: f64_underflow_def)

lemma underflow_lt_min_normal: "f64_underflow < f64_min_normal"
  by (simp add: f64_underflow_def f64_min_normal_def field_simps)

lemma min_normal_pos: "0 < f64_min_normal"
  by (simp add: f64_min_normal_def)

lemma min_normal_le_one: "f64_min_normal \<le> 1"
  by (simp add: f64_min_normal_def field_simps)

lemma overflow_gt_one: "1 < f64_overflow"
  by (rule less_trans[OF _ overflow_gt]) simp

lemma underflow_lt_one: "f64_underflow < 1"
  by (simp add: f64_underflow_def field_simps)

lemma underflow_lt_overflow: "f64_underflow < f64_overflow"
  using overflow_gt_one underflow_lt_one by linarith

lemma rnd_normal: "normal r \<Longrightarrow> rnd r = Fin r"
  using underflow_lt_min_normal overflow_pos underflow_pos
  by (auto simp: normal_def rnd_def abs_if split: if_splits)

lemma rnd_0: "rnd 0 = Fin 0"
  by (rule rnd_normal) (simp add: normal_def)

lemma rnd_overflow: "f64_overflow \<le> r \<Longrightarrow> rnd r = PInf"
  by (simp add: rnd_def)

lemma rnd_underflow: "\<bar>r\<bar> \<le> f64_underflow \<Longrightarrow> rnd r = Fin 0"
  using underflow_lt_overflow by (auto simp: rnd_def abs_if split: if_splits)

lemma rnd_not_NaN: "rnd r \<noteq> NaN"
  by (simp add: rnd_def)

lemma normal_moderate: "1 / 2 ^ 64 \<le> \<bar>r\<bar> \<Longrightarrow> \<bar>r\<bar> \<le> 2 ^ 64 \<Longrightarrow> normal r"
proof -
  assume a: "1 / 2 ^ 64 \<le> \<bar>r\<bar>" and b: "\<bar>r\<bar> \<le> 2 ^ 64"
  have "f64_min_normal \<le> 1 / 2 ^ 64"
    by (simp add: f64_min_normal_def field_simps)
  moreover have "(2::real) ^ 64 < f64_overflow"
    by (rule less_trans[OF _ overflow_gt]) simp
  ultimately show ?thesis using a b by (simp add: normal_def)
qed

lemma rnd_moderate: "1 / 2 ^ 64 \<le> \<bar>r\<bar> \<Longrightarrow> \<bar>r\<bar> \<le> 2 ^ 64 \<Longrightarrow> rnd r = Fin r"
  by (rule rnd_normal) (rule normal_moderate)

lemma normal_exp: "- 1022 \<le> 2 * x \<Longrightarrow> 2 * x \<le> 1023 \<Longrightarrow> normal (exp x)"
proof -
  assume lo: "- 1022 \<le> 2 * x" and hi: "2 * x \<le> 1023"
  have "exp x \<le> 2 ^ 1023"
    by (rule exp_le_pow2) (use hi in simp)
  then have 1: "exp x < f64_overflow"
    using overflow_gt by linarith
  have "1 / 2 ^ 1022 \<le> exp (- (- x))"
    by (rule pow2_le_exp_minus) (use lo in simp)
  then show ?thesis using 1 by (simp add: normal_def f64_min_normal_def)
qed

lemma normal_pos_ge: "normal a \<Longrightarrow> 0 < a \<Longrightarrow> f64_min_normal \<le> a"
  by (simp add: normal_def)

lemma normal_between: "f64_min_normal \<le> r \<Longrightarrow> r < f64_overflow \<Longrightarrow> normal r"
  using min_normal_pos by (simp add: normal_def)

lemma rnd_exp_1000: "rnd (exp 1000) = PInf"
proof -
  have "(2::real) ^ 1024 \<le> exp 1000" by (rule pow2_le_exp) simp
  then show ?thesis using overflow_le by (intro rnd_overflow) linarith
qed

lemma rnd_exp_minus_1000: "rnd (exp (- 1000)) = Fin 0"
proof -
  have "exp (- 1000) \<le> (1::real) / 2 ^ 1075" by (rule exp_minus_le_pow2) simp
  then show ?thesis by (intro rnd_underflow) (simp add: f64_underflow_def)
qed

lemma normal_exp_400: "normal (exp 400)" and normal_exp_500: "normal (exp 500)"
  and normal_exp_minus_500: "normal (exp (- 500))"
  by (rule normal_exp; simp)+

lemma exp_400_bounds: "1 \<le> exp (400::real)" "exp (400::real) \<le> 2 ^ 800"
  by (simp, rule exp_le_pow2, simp)

lemma normal_2_exp_400: "normal (2 * exp 400)" and normal_2_exp_400_plus_1: "normal (2 * exp 400 + 1)"
proof -
  have "2 * exp (400::real) \<le> 2 ^ 801" using exp_400_bounds(2) by simp
  then have "2 * exp (400::real) + 1 \<le> 2 ^ 801 + 1" by simp
  also have "\<dots> < 2 ^ 1023" by simp
  finally have up: "2 * exp (400::real) + 1 < f64_overflow" using overflow_gt by linarith
  have lo: "f64_min_normal \<le> 2 * exp 400"
    using exp_400_bounds(1) min_normal_le_one by linarith
  show "normal (2 * exp 400)"
    by (rule normal_between) (use lo up in linarith)+
  show "normal (2 * exp 400 + 1)"
    by (rule normal_between) (use lo up in linarith)+
qed

lemma rnd_exp_800: "rnd (exp 400 * exp 400) = PInf" and rnd_4_exp_800: "rnd (2 * exp 400 * (2 * exp 400)) = PInf"
proof -
  have "(2::real) ^ 1024 \<le> exp 800" by (rule pow2_le_exp) simp
  then have 1: "f64_overflow \<le> exp 400 * exp 400"
    using overflow_le by (simp add: exp_add[symmetric]) 
  then show "rnd (exp 400 * exp 400) = PInf" by (rule rnd_overflow)
  have "exp 400 * exp 400 \<le> 2 * exp 400 * (2 * exp (400::real))" by simp
  with 1 show "rnd (2 * exp 400 * (2 * exp 400)) = PInf"
    by (intro rnd_overflow) linarith
qed

lemma rnd_large: "rnd f64_large = Fin f64_large"
proof (rule rnd_normal, rule normal_between)
  have "f64_min_normal \<le> 1" by (rule min_normal_le_one)
  also have "(1::real) \<le> f64_large" by (simp add: f64_large_def)
  finally show "f64_min_normal \<le> f64_large" .
  show "f64_large < f64_overflow" unfolding f64_large_def by (rule overflow_gt)
qed

lemma rnd_large_twice: "rnd (2 * f64_large) = PInf"
  by (rule rnd_overflow) (simp add: f64_overflow_def f64_large_def)

section \<open>Values of the gamma function\<close>

text \<open>
  Euler's sequence at \<open>x + 1\<close> is the sequence at \<open>x\<close> times
  \<open>x n / (x + n + 1)\<close>, so a limit at \<open>x\<close> gives the limit at \<open>x + 1\<close>, and
  \<open>\<Gamma>(m + 1) = m!\<close> follows by induction from \<open>\<Gamma>(1) = 1\<close>.
\<close>

lemma Gamma_series_1: "Gamma_series 1 n = real n / real (Suc n)"
proof -
  have "(\<Prod>k = 0..n. 1 + real k) = fact (Suc n)"
    by (induction n) (simp_all add: algebra_simps)
  then show ?thesis
    by (cases "n = 0") (simp_all add: Gamma_series_def)
qed

lemma Gamma_series_1_lim: "Gamma_series 1 \<longlonglongrightarrow> 1"
  unfolding Gamma_series_1 by (rule LIMSEQ_n_over_Suc_n)

lemma Gamma_series_rec:
  assumes "0 < x"
  shows "Gamma_series (x + 1) n = x * Gamma_series x n * (real n / (x + real n + 1))"
proof -
  let ?P = "\<Prod>k = 0..n. x + real k"
  let ?Q = "\<Prod>k = 0..n. x + 1 + real k"
  have pos: "?P \<noteq> 0" using assms by (simp add: add_pos_nonneg)
  have "(\<Prod>k = 0..Suc n. x + real k) = x * (\<Prod>k = Suc 0..Suc n. x + real k)"
    by (subst prod.atLeast_Suc_atMost) simp_all
  also have "(\<Prod>k = Suc 0..Suc n. x + real k) = ?Q"
    by (subst prod.shift_bounds_cl_Suc_ivl) (simp add: algebra_simps)
  finally have "x * ?Q = ?P * (x + real n + 1)"
    by (simp add: algebra_simps)
  then have Q: "?Q = ?P * (x + real n + 1) / x"
    using assms by (simp add: field_simps)
  have pw: "real n powr (x + 1) = real n powr x * real n"
    by (cases "n = 0") (simp_all add: powr_add)
  show ?thesis
    unfolding Gamma_series_def Q pw using assms pos by (simp add: field_simps)
qed

lemma ratio_lim: "(\<lambda>n. real n / (x + real n + 1)) \<longlonglongrightarrow> 1"
proof -
  have "filterlim (\<lambda>n. (x + 1) + real n) at_top sequentially"
    by (rule filterlim_tendsto_add_at_top[OF tendsto_const filterlim_real_sequentially])
  then have top: "filterlim (\<lambda>n. x + real n + 1) at_top sequentially"
    by (simp add: add.commute add.left_commute)
  have "(\<lambda>n. (x + 1) / (x + real n + 1)) \<longlonglongrightarrow> 0"
    by (rule real_tendsto_divide_at_top[OF tendsto_const top])
  then have "(\<lambda>n. 1 - (x + 1) / (x + real n + 1)) \<longlonglongrightarrow> 1 - 0"
    by (intro tendsto_diff tendsto_const)
  moreover have "eventually (\<lambda>n. 1 - (x + 1) / (x + real n + 1) = real n / (x + real n + 1)) sequentially"
  proof -
    have "eventually (\<lambda>n. 0 < x + real n + 1) sequentially"
      using top by (simp add: filterlim_at_top_dense)
    then show ?thesis
      by (rule eventually_mono) (simp add: field_simps)
  qed
  ultimately show ?thesis
    by (simp add: tendsto_cong)
qed

lemma Gamma_series_step:
  assumes "0 < x" "Gamma_series x \<longlonglongrightarrow> G"
  shows "Gamma_series (x + 1) \<longlonglongrightarrow> x * G"
proof -
  have "(\<lambda>n. x * Gamma_series x n * (real n / (x + real n + 1))) \<longlonglongrightarrow> x * G * 1"
    by (intro tendsto_mult tendsto_const assms(2) ratio_lim)
  moreover have "Gamma_series (x + 1) = (\<lambda>n. x * Gamma_series x n * (real n / (x + real n + 1)))"
    by (rule ext) (rule Gamma_series_rec[OF assms(1)])
  ultimately show ?thesis by simp
qed

lemma Gamma_series_fact: "Gamma_series (real m + 1) \<longlonglongrightarrow> fact m"
proof (induction m)
  case 0
  show ?case using Gamma_series_1_lim by simp
next
  case (Suc m)
  have "Gamma_series ((real m + 1) + 1) \<longlonglongrightarrow> (real m + 1) * fact m"
    by (rule Gamma_series_step) (use Suc in simp_all)
  then show ?case by (simp add: algebra_simps)
qed

lemma Gamma_fact: "Gamma (real m + 1) = fact m"
  unfolding Gamma_def by (rule limI) (rule Gamma_series_fact)

lemma Gamma_1: "Gamma 1 = 1" using Gamma_fact[of 0] by simp

lemma Gamma_2: "Gamma 2 = 1" using Gamma_fact[of 1] by simp

lemma Gamma_3: "Gamma 3 = 2" using Gamma_fact[of 2] by (simp add: numeral_eq_Suc)

lemma Gamma_4: "Gamma 4 = 6" using Gamma_fact[of 3] by (simp add: numeral_eq_Suc)

lemma lgamma_1: "lgamma 1 = Some 0" by (simp add: lgamma_def pole_def Gamma_1)

lemma lgamma_2: "lgamma 2 = Some 0" by (simp add: lgamma_def pole_def Gamma_2)

lemma lgamma_3: "lgamma 3 = Some (ln 2)" by (simp add: lgamma_def pole_def Gamma_3)

lemma lgamma_4: "lgamma 4 = Some (ln 6)" by (simp add: lgamma_def pole_def Gamma_4)

lemma lgamma_None_iff: "lgamma x = None \<longleftrightarrow> pole x"
  by (simp add: lgamma_def)


section \<open>Arithmetic of the log-density\<close>

lemma fadd_Some: "fadd (Some x) (Some y) = Some (x + y)"
  and fsub_Some: "fsub (Some x) (Some y) = Some (x - y)"
  and fmul_Some: "fmul (Some x) (Some y) = Some (x * y)"
  by (simp_all add: fadd_def fsub_def fmul_def)

lemma fsub_None_iff: "fsub a b = None \<longleftrightarrow> a = None \<or> b = None"
  by (simp add: fsub_def split: option.splits)



lemma xlogy_None_iff: "xlogy x y = None \<longleftrightarrow> x \<noteq> 0 \<and> y \<le> 0"
  by (auto simp: xlogy_def fmul_def tf_log_def)

lemma fsum_Cons: "fsum (x # xs) = fadd x (fsum xs)" and fsum_Nil: "fsum [] = Some 0"
  by (simp_all add: fsum_def)


lemma fsum_None_iff: "fsum xs = None \<longleftrightarrow> None \<in> set xs"
  by (induction xs) (auto simp: fsum_def fadd_def split: option.splits)

lemma None_in_map2:
  assumes "length xs = length ys"
  shows "None \<in> set (map2 f xs ys) \<longleftrightarrow> (\<exists>k<length ys. f (xs ! k) (ys ! k) = None)"
proof -
  let ?zs = "map2 f xs ys"
  have l: "length ?zs = length ys"
    using assms by simp
  have n: "?zs ! k = f (xs ! k) (ys ! k)" if "k < length ys" for k
    using that assms by simp
  have "None \<in> set ?zs \<longleftrightarrow> (\<exists>k<length ?zs. ?zs ! k = None)"
    by (metis in_set_conv_nth)
  also have "\<dots> \<longleftrightarrow> (\<exists>k<length ys. f (xs ! k) (ys ! k) = None)"
    unfolding l using n by auto
  finally show ?thesis .
qed




lemma sum_list_ge_member: "\<forall>x\<in>set xs. 0 < x \<Longrightarrow> a \<in> set xs \<Longrightarrow> a \<le> sum_list xs"
  for xs :: "real list"
  by (induction xs) (auto simp: sum_list_nonneg less_imp_le intro: add_increasing add_increasing2)

section \<open>Float64 sums and signs\<close>

text \<open>
  A sum of positive normal numbers that stays below the overflow threshold is exact.
  A sum of non-negative values is at least each of its entries, or \<open>+Inf\<close>; products
  and quotients of non-negative values are non-negative or NaN.
\<close>

lemma foldl_add_exact:
  assumes "\<forall>a\<in>set alpha. 0 < a \<and> normal a" and "c = 0 \<or> f64_min_normal \<le> c"
    and "c + sum_list alpha < f64_overflow"
  shows "foldl f64_add (Fin c) (map Fin alpha) = Fin (c + sum_list alpha)"
  using assms
proof (induction alpha arbitrary: c)
  case Nil
  then show ?case by simp
next
  case (Cons a alpha)
  have a: "0 < a" "f64_min_normal \<le> a"
    using Cons.prems(1) by (simp_all add: normal_pos_ge)
  have c0: "0 \<le> c"
    using Cons.prems(2) min_normal_pos by auto
  have rest: "0 \<le> sum_list alpha"
    using Cons.prems(1) by (intro sum_list_nonneg) (simp add: less_imp_le)
  have "f64_min_normal \<le> c + a" using a c0 by linarith
  moreover have "c + a < f64_overflow" using Cons.prems(3) rest by simp
  ultimately have n: "normal (c + a)" by (rule normal_between)
  have 1: "\<forall>x\<in>set alpha. 0 < x \<and> normal x"
    using Cons.prems(1) by simp
  have 2: "c + a = 0 \<or> f64_min_normal \<le> c + a"
    using a c0 by linarith
  have 3: "(c + a) + sum_list alpha < f64_overflow"
    using Cons.prems(3) by (simp add: add.assoc)
  have "foldl f64_add (Fin (c + a)) (map Fin alpha) = Fin ((c + a) + sum_list alpha)"
    by (rule Cons.IH[OF 1 2 3])
  then show ?case
    by (simp add: rnd_normal[OF n] add.assoc)
qed

lemma f64_sum_exact:
  assumes "\<forall>a\<in>set alpha. 0 < a \<and> normal a" and "sum_list alpha < f64_overflow"
  shows "f64_sum (map Fin alpha) = Fin (sum_list alpha)"
  using foldl_add_exact[of alpha 0] assms by (simp add: f64_sum_def)

lemma map_rnd_normal: "\<forall>a\<in>set alpha. normal a \<Longrightarrow> map rnd alpha = map Fin alpha"
  by (simp add: rnd_normal)

lemma rnd_nonneg: "0 \<le> r \<Longrightarrow> f64_nonneg (rnd r)"
  using overflow_pos by (auto simp: rnd_def f64_nonneg_def)

lemma rnd_nonneg_repr: "0 \<le> r \<Longrightarrow> f64_nonneg_repr (rnd r)"
  using overflow_pos by (auto simp: rnd_def f64_nonneg_repr_def)

lemma add_nonneg_repr:
  assumes "f64_nonneg_repr x" "f64_nonneg_repr y"
  shows "f64_nonneg_repr (f64_add x y)"
proof (cases x; cases y)
  fix a b assume xy: "x = Fin a" "y = Fin b"
  then have "0 \<le> a + b"
    using assms underflow_pos by (auto simp: f64_nonneg_repr_def)
  then show ?thesis using xy by (simp add: rnd_nonneg_repr)
qed (use assms in \<open>auto simp: f64_nonneg_repr_def\<close>)

lemma add_Fin_ge:
  assumes "f64_nonneg_repr x" "f64_nonneg_repr y" "f64_add x y = Fin s"
  shows "\<exists>a b. x = Fin a \<and> y = Fin b \<and> a \<le> s \<and> b \<le> s"
proof (cases x; cases y)
  fix a b assume xy: "x = Fin a" "y = Fin b"
  have a: "a = 0 \<or> f64_underflow < a" and b: "b = 0 \<or> f64_underflow < b"
    using assms(1,2) xy by (auto simp: f64_nonneg_repr_def)
  have "rnd (a + b) = Fin s" using assms(3) xy by simp
  then have "s = a + b"
    using a b underflow_pos by (auto simp: rnd_def split: if_splits)
  then show ?thesis using xy a b underflow_pos by auto
qed (use assms in \<open>auto simp: f64_nonneg_repr_def\<close>)

lemma foldl_add_nonneg_repr:
  assumes "f64_nonneg_repr c" "\<forall>x\<in>set r. f64_nonneg_repr x"
  shows "f64_nonneg_repr (foldl f64_add c r)
       \<and> (\<forall>s. foldl f64_add c r = Fin s \<longrightarrow>
             (\<exists>c'. c = Fin c' \<and> c' \<le> s) \<and> (\<forall>x\<in>set r. \<exists>a. x = Fin a \<and> a \<le> s))"
  using assms
proof (induction r arbitrary: c)
  case Nil
  then show ?case by simp
next
  case (Cons x r)
  have cx: "f64_nonneg_repr (f64_add c x)"
    by (rule add_nonneg_repr) (use Cons.prems in simp_all)
  have ih: "f64_nonneg_repr (foldl f64_add (f64_add c x) r)
       \<and> (\<forall>s. foldl f64_add (f64_add c x) r = Fin s \<longrightarrow>
             (\<exists>c'. f64_add c x = Fin c' \<and> c' \<le> s) \<and> (\<forall>y\<in>set r. \<exists>a. y = Fin a \<and> a \<le> s))"
    by (rule Cons.IH[OF cx]) (use Cons.prems in simp)
  show ?case
  proof (intro conjI allI impI)
    show "f64_nonneg_repr (foldl f64_add c (x # r))"
      using ih by simp
  next
    fix s assume s: "foldl f64_add c (x # r) = Fin s"
    then obtain t where t: "f64_add c x = Fin t" "t \<le> s"
      and rest: "\<forall>y\<in>set r. \<exists>a. y = Fin a \<and> a \<le> s"
      using ih by auto
    from add_Fin_ge[OF _ _ t(1)] Cons.prems
    obtain a b where ab: "c = Fin a" "x = Fin b" "a \<le> t" "b \<le> t"
      by auto
    show "\<exists>c'. c = Fin c' \<and> c' \<le> s"
      using ab t by auto
    show "\<forall>y\<in>set (x # r). \<exists>a. y = Fin a \<and> a \<le> s"
      using ab t rest by auto
  qed
qed

lemma f64_sum_nonneg_repr:
  assumes "\<forall>x\<in>set r. f64_nonneg_repr x"
  shows "f64_nonneg_repr (f64_sum r)"
    and "f64_sum r = Fin s \<Longrightarrow> x \<in> set r \<Longrightarrow> \<exists>a. x = Fin a \<and> a \<le> s"
  using foldl_add_nonneg_repr[of "Fin 0" r] assms
  by (auto simp: f64_sum_def f64_nonneg_repr_def)

lemma nonneg_repr_nonneg: "f64_nonneg_repr x \<Longrightarrow> f64_nonneg x"
  using underflow_pos by (cases x) (auto simp: f64_nonneg_repr_def f64_nonneg_def)

lemma sub_sum_entry:
  assumes "\<forall>x\<in>set r. f64_nonneg_repr x" "x \<in> set r"
  shows "f64_sub (f64_sum r) x = NaN \<or> f64_nonneg (f64_sub (f64_sum r) x)"
proof (cases "f64_sum r")
  case (Fin s)
  with f64_sum_nonneg_repr(2)[OF assms(1) Fin assms(2)]
  obtain a where a: "x = Fin a" "a \<le> s" by auto
  then show ?thesis
    using Fin rnd_nonneg[of "s - a"] by (simp add: f64_sub_def)
next
  case PInf
  then show ?thesis
    using assms by (cases x) (auto simp: f64_sub_def f64_nonneg_def f64_nonneg_repr_def)
next
  case NInf
  then show ?thesis
    using f64_sum_nonneg_repr(1)[OF assms(1)] by (simp add: f64_nonneg_repr_def)
next
  case NaN
  then show ?thesis by (simp add: f64_sub_def)
qed

lemma mul_nonneg_or_NaN:
  assumes "x = NaN \<or> f64_nonneg x" "y = NaN \<or> f64_nonneg y"
  shows "f64_mul x y = NaN \<or> f64_nonneg (f64_mul x y)"
proof (cases x; cases y)
  fix a b assume xy: "x = Fin a" "y = Fin b"
  then have "0 \<le> a * b" using assms by (simp add: f64_nonneg_def)
  then show ?thesis using xy by (simp add: rnd_nonneg)
qed (use assms in \<open>auto simp: f64_nonneg_def\<close>)

lemma div_nonneg_or_NaN:
  assumes "x = NaN \<or> f64_nonneg x" "y = NaN \<or> f64_nonneg y"
  shows "f64_div x y = NaN \<or> f64_nonneg (f64_div x y)"
proof (cases x; cases y)
  fix a b assume xy: "x = Fin a" "y = Fin b"
  then have "0 \<le> a / b" "0 \<le> a" using assms by (simp_all add: f64_nonneg_def)
  then show ?thesis using xy rnd_nonneg[of "a / b"] by (auto simp: f64_nonneg_def)
qed (use assms in \<open>auto simp: f64_nonneg_def\<close>)

lemma add_one_nonneg:
  assumes "f64_nonneg x"
  shows "f64_nonneg (f64_add x (Fin 1))"
proof (cases x)
  case (Fin a)
  then show ?thesis using assms rnd_nonneg[of "a + 1"] by (simp add: f64_nonneg_def)
qed (use assms in \<open>auto simp: f64_nonneg_def\<close>)

lemma variance_entry_sign:
  assumes r: "\<forall>x\<in>set r. f64_nonneg_repr x" and x: "x \<in> set r"
  shows "f64_div (f64_mul x (f64_sub (f64_sum r) x))
                 (f64_mul (f64_square (f64_sum r)) (f64_add (f64_sum r) (Fin 1))) = NaN
       \<or> f64_nonneg (f64_div (f64_mul x (f64_sub (f64_sum r) x))
                 (f64_mul (f64_square (f64_sum r)) (f64_add (f64_sum r) (Fin 1))))"
proof -
  have S: "f64_nonneg (f64_sum r)"
    by (rule nonneg_repr_nonneg[OF f64_sum_nonneg_repr(1)[OF r]])
  have X: "f64_nonneg x"
    using r x by (simp add: nonneg_repr_nonneg)
  have num: "f64_mul x (f64_sub (f64_sum r) x) = NaN
               \<or> f64_nonneg (f64_mul x (f64_sub (f64_sum r) x))"
    by (rule mul_nonneg_or_NaN) (use X sub_sum_entry[OF r x] in simp_all)
  have sq: "f64_square (f64_sum r) = NaN \<or> f64_nonneg (f64_square (f64_sum r))"
    unfolding f64_square_def by (rule mul_nonneg_or_NaN) (use S in simp_all)
  have den: "f64_mul (f64_square (f64_sum r)) (f64_add (f64_sum r) (Fin 1)) = NaN
               \<or> f64_nonneg (f64_mul (f64_square (f64_sum r)) (f64_add (f64_sum r) (Fin 1)))"
    by (rule mul_nonneg_or_NaN) (use sq add_one_nonneg[OF S] in simp_all)
  show ?thesis
    by (rule div_nonneg_or_NaN[OF num den])
qed

lemma div_by_zero_not_finite: "\<not> f64_finite (f64_div a (Fin 0))"
  by (cases a) (simp_all add: f64_finite_def)

lemma variance_entry_exact:
  assumes a: "0 < a" and s: "a \<le> s"
    and n: "normal (s + 1)" "normal (s\<^sup>2)" "normal (s\<^sup>2 * (s + 1))" "normal (s - a)"
      "normal (a * (s - a))" "normal (a * (s - a) / (s\<^sup>2 * (s + 1)))"
      "normal (a / s)" "normal (1 - a / s)" "normal (a / s * (1 - a / s))"
  shows "f64_div (f64_mul (Fin a) (f64_sub (Fin s) (Fin a)))
                 (f64_mul (f64_square (Fin s)) (f64_add (Fin s) (Fin 1)))
           = f64_div (f64_mul (Fin (a / s)) (f64_sub (Fin 1) (Fin (a / s))))
                     (f64_add (Fin s) (Fin 1))"
proof -
  have sp: "0 < s" using a s by linarith
  have q: "a * (s - a) / (s\<^sup>2 * (s + 1)) = a / s * (1 - a / s) / (s + 1)"
    using sp by (simp add: power2_eq_square field_simps)
  have d1: "s\<^sup>2 * (s + 1) \<noteq> 0" and d2: "s + 1 \<noteq> 0"
    using sp by (simp_all add: add_pos_pos less_imp_neq[symmetric])
  have lhs: "f64_div (f64_mul (Fin a) (f64_sub (Fin s) (Fin a)))
                 (f64_mul (f64_square (Fin s)) (f64_add (Fin s) (Fin 1)))
               = Fin (a * (s - a) / (s\<^sup>2 * (s + 1)))"
    using n d1 by (simp add: f64_sub_def f64_square_def rnd_normal power2_eq_square[symmetric])
  have rhs: "f64_div (f64_mul (Fin (a / s)) (f64_sub (Fin 1) (Fin (a / s))))
                     (f64_add (Fin s) (Fin 1))
               = Fin (a / s * (1 - a / s) / (s + 1))"
    using n d2 q by (simp add: f64_sub_def rnd_normal)
  show ?thesis
    by (simp only: lhs rhs q)
qed

lemma mean_row_exact:
  assumes pos: "list_all (\<lambda>a. 0 < a) alpha" and rng: "mean_in_range alpha"
  shows "map (\<lambda>a. f64_div a (f64_sum (map rnd alpha))) (map rnd alpha)
           = map (\<lambda>a. Fin (a / sum_list alpha)) alpha"
proof -
  have n: "\<forall>a\<in>set alpha. normal a" and q: "\<forall>a\<in>set alpha. normal (a / sum_list alpha)"
    and s: "sum_list alpha < f64_overflow"
    using rng by (simp_all add: mean_in_range_def list_all_iff)
  have p: "\<forall>a\<in>set alpha. 0 < a"
    using pos by (simp add: list_all_iff)
  have r: "map rnd alpha = map Fin alpha"
    by (rule map_rnd_normal[OF n])
  have S: "f64_sum (map Fin alpha) = Fin (sum_list alpha)"
    by (rule f64_sum_exact) (use p n s in auto)
  have "f64_div (Fin a) (Fin (sum_list alpha)) = Fin (a / sum_list alpha)" if "a \<in> set alpha" for a
  proof -
    have "a \<le> sum_list alpha" by (rule sum_list_ge_member[OF p that])
    then have "sum_list alpha \<noteq> 0" using p that by fastforce
    then show ?thesis using q that by (simp add: rnd_normal)
  qed
  then show ?thesis
    by (simp add: r S)
qed

lemma mean_row_sum:
  assumes pos: "list_all (\<lambda>a. 0 < a) alpha" and rng: "mean_in_range alpha"
  shows "f64_sum (map (\<lambda>a. Fin (a / sum_list alpha)) alpha) = Fin 1"
proof -
  have p: "\<forall>a\<in>set alpha. 0 < a"
    using pos by (simp add: list_all_iff)
  have q: "\<forall>a\<in>set alpha. normal (a / sum_list alpha)"
    using rng by (simp add: mean_in_range_def list_all_iff)
  have S: "0 < sum_list alpha"
    using rng min_normal_pos by (simp add: mean_in_range_def)
  have one: "sum_list (map (\<lambda>a. a / sum_list alpha) alpha) = 1"
  proof -
    have "sum_list (map (\<lambda>a. a / s) alpha) = sum_list alpha / s" for s
      by (induction alpha) (simp_all add: add_divide_distrib)
    then show ?thesis using S by simp
  qed
  have "f64_sum (map Fin (map (\<lambda>a. a / sum_list alpha) alpha))
          = Fin (sum_list (map (\<lambda>a. a / sum_list alpha) alpha))"
    by (rule f64_sum_exact) (use p q S one overflow_gt_one in auto)
  then show ?thesis
    by (simp add: one comp_def)
qed

lemma sum_list_exp_shift:
  "sum_list (map (\<lambda>f. exp (f + c)) row) = exp c * sum_list (map exp row)" for c :: real
  by (induction row) (simp_all add: exp_add algebra_simps)

lemma exp_shift_quotients:
  "map (\<lambda>a. Fin (a / sum_list (map exp (map (\<lambda>f. f + c) row)))) (map exp (map (\<lambda>f. f + c) row))
     = map (\<lambda>a. Fin (a / sum_list (map exp row))) (map exp row)"
proof -
  have s: "sum_list (map exp (map (\<lambda>f. f + c) row)) = exp c * sum_list (map exp row)"
    using sum_list_exp_shift[of c row] by (simp add: comp_def)
  have "exp (f + c) / (exp c * S) = exp f / S" for f S :: real
    by (simp add: exp_add)
  then show ?thesis
    unfolding s by (simp add: comp_def)
qed

lemma exp_row_pos: "list_all (\<lambda>a. 0 < a) (map exp row)" for row :: "real list"
  by (simp add: list_all_iff)

section \<open>Broadcasting resolved\<close>

text \<open>
  Where the two operands come from the same tensor, or have the same shape, the
  broadcast cannot fail and the operation is row-wise.
\<close>

lemma bind_e_Inr: "bind_e (Inr x) f = f x"
  by (simp add: bind_e_def)

lemma collect_map_Inr: "collect (map (\<lambda>r. Inr (h r)) A) = Inr (map h A)"
  by (induction A) (simp_all add: bind_e_def)

lemma bcast_same: "length xs = length ys \<Longrightarrow> bcast f xs ys = Inr (map2 f xs ys)"
  by (simp add: bcast_def)

lemma bcast_right1: "bcast f xs [s] = Inr (map (\<lambda>x. f x s) xs)"
  by (cases xs rule: list.exhaust; cases "tl xs") (auto simp: bcast_def)

lemma bcast_left1: "bcast f [s] ys = Inr (map (f s) ys)"
  by (cases ys rule: list.exhaust; cases "tl ys") (auto simp: bcast_def)

lemma bcast2_rows:
  "bcast2 f (map p A) (map q A) = collect (map (\<lambda>r. bcast f (p r) (q r)) A)"
proof -
  have "map2 (bcast f) (map p A) (map q A) = map (\<lambda>r. bcast f (p r) (q r)) A"
    by (induction A) simp_all
  then show ?thesis
    by (simp add: bcast2_def bcast_same bind_e_def)
qed

lemma bcast2_keepdims:
  "bcast2 f A (newaxis (map g A)) = Inr (map (\<lambda>r. map (\<lambda>a. f a (g r)) r) A)"
proof -
  have "bcast2 f (map (\<lambda>r. r) A) (map (\<lambda>r. [g r]) A)
          = collect (map (\<lambda>r. bcast f r [g r]) A)"
    by (rule bcast2_rows)
  then show ?thesis
    by (simp add: newaxis_def comp_def bcast_right1 collect_map_Inr)
qed

lemma bcast2_same_shape:
  assumes "map length A = map length B"
  shows "bcast2 f A B = Inr (map2 (map2 f) A B)"
proof -
  have len: "length A = length B"
    using assms by (metis length_map)
  from len assms have "collect (map2 (bcast f) A B) = Inr (map2 (map2 f) A B)"
    by (induction A B rule: list_induct2) (simp_all add: bcast_same bind_e_def)
  then show ?thesis
    by (simp add: bcast2_def bcast_same len bind_e_def)
qed

section \<open>The operations in closed form\<close>

lemma float_link_nth:
  "float_link self F = map (map rnd) (invlink self F)"
  by (simp add: float_link_def scalar_op_def)

lemma float_link_row:
  "i < length (invlink self F) \<Longrightarrow> float_link self F ! i = map rnd (invlink self F ! i)"
  by (simp add: float_link_nth)

lemma tf_exp_nonneg: "i < length F \<Longrightarrow> list_all (\<lambda>a. 0 \<le> a) (tf_exp F ! i)"
  by (simp add: tf_exp_def list_all_iff)

lemma conditional_mean_eq:
  "conditional_mean self F
     = Inr (map (\<lambda>r. map (\<lambda>a. f64_div a (f64_sum r)) r) (float_link self F))"
  by (simp add: conditional_mean_def f64_reduce_sum_def bcast2_keepdims)

lemma static_sample_dir_eq:
  "static_sample_dir g st c n s
     = (Inr (map (\<lambda>r. map (\<lambda>a. f64_div a (f64_sum r)) r) (scalar_op rnd (fst (g st n c s)))),
        snd (g st n c s))"
  by (simp add: static_sample_dir_def f64_reduce_sum_def bcast2_keepdims split: prod.splits)

lemma conditional_variance_eq:
  "conditional_variance self F
     = Inr (map (\<lambda>r. map (\<lambda>a. f64_div (f64_mul a (f64_sub (f64_sum r) a))
                                   (f64_mul (f64_square (f64_sum r)) (f64_add (f64_sum r) (Fin 1)))) r)
             (float_link self F))"
proof -
  define A where "A = float_link self F"
  let ?S = "\<lambda>r::f64 list. f64_sum r"
  have d: "bcast2 f64_sub (newaxis (f64_reduce_sum A)) A
             = Inr (map (\<lambda>r. map (\<lambda>a. f64_sub (?S r) a) r) A)"
  proof -
    have "bcast2 f64_sub (map (\<lambda>r. [?S r]) A) (map (\<lambda>r. r) A)
            = collect (map (\<lambda>r. bcast f64_sub [?S r] r) A)"
      by (rule bcast2_rows)
    then show ?thesis
      by (simp add: newaxis_def f64_reduce_sum_def comp_def bcast_left1 collect_map_Inr)
  qed
  have num: "bcast2 f64_mul A (map (\<lambda>r. map (\<lambda>a. f64_sub (?S r) a) r) A)
               = Inr (map (\<lambda>r. map (\<lambda>a. f64_mul a (f64_sub (?S r) a)) r) A)"
  proof -
    have "bcast2 f64_mul (map (\<lambda>r. r) A) (map (\<lambda>r. map (\<lambda>a. f64_sub (?S r) a) r) A)
            = collect (map (\<lambda>r. bcast f64_mul r (map (\<lambda>a. f64_sub (?S r) a) r)) A)"
      by (rule bcast2_rows)
    moreover have "\<And>r::f64 list. map2 f64_mul r (map (\<lambda>a. f64_sub (?S r) a) r)
                      = map (\<lambda>a. f64_mul a (f64_sub (?S r) a)) r"
      by (simp add: zip_map2 zip_same_conv_map comp_def)
    ultimately show ?thesis
      by (simp add: bcast_same collect_map_Inr)
  qed
  have den: "bcast2 f64_mul (scalar_op f64_square (newaxis (f64_reduce_sum A)))
                         (scalar_op (\<lambda>s. f64_add s (Fin 1)) (newaxis (f64_reduce_sum A)))
               = Inr (newaxis (map (\<lambda>r. f64_mul (f64_square (?S r)) (f64_add (?S r) (Fin 1))) A))"
  proof -
    have "bcast2 f64_mul (map (\<lambda>r. [f64_square (?S r)]) A) (map (\<lambda>r. [f64_add (?S r) (Fin 1)]) A)
            = collect (map (\<lambda>r. bcast f64_mul [f64_square (?S r)] [f64_add (?S r) (Fin 1)]) A)"
      by (rule bcast2_rows)
    then show ?thesis
      by (simp add: newaxis_def f64_reduce_sum_def scalar_op_def comp_def bcast_same collect_map_Inr)
  qed
  have quot: "bcast2 f64_div (map (\<lambda>r. map (\<lambda>a. f64_mul a (f64_sub (?S r) a)) r) A)
                (newaxis (map (\<lambda>r. f64_mul (f64_square (?S r)) (f64_add (?S r) (Fin 1))) A))
       = Inr (map (\<lambda>r. map (\<lambda>a. f64_div (f64_mul a (f64_sub (?S r) a))
                  (f64_mul (f64_square (?S r)) (f64_add (?S r) (Fin 1)))) r) A)"
  proof -
    have "bcast2 f64_div (map (\<lambda>r. map (\<lambda>a. f64_mul a (f64_sub (?S r) a)) r) A)
                (map (\<lambda>r. [f64_mul (f64_square (?S r)) (f64_add (?S r) (Fin 1))]) A)
       = collect (map (\<lambda>r. bcast f64_div (map (\<lambda>a. f64_mul a (f64_sub (?S r) a)) r)
                    [f64_mul (f64_square (?S r)) (f64_add (?S r) (Fin 1))]) A)"
      by (rule bcast2_rows)
    then show ?thesis
      by (simp add: newaxis_def comp_def bcast_right1 collect_map_Inr)
  qed
  show ?thesis
    unfolding conditional_variance_def Let_def A_def[symmetric]
    by (simp only: d bind_e_Inr num den quot)
qed

lemma static_log_prob_eq:
  assumes "map length c = map length y"
  shows "static_log_prob c y
           = Inr (map2 (\<lambda>a y. fsub (fsum (map2 xlogy (map (\<lambda>a. a - 1) a) y)) (lbeta_row a)) c y)"
proof -
  have sh: "map length (scalar_op (\<lambda>a. a - 1) c) = map length y"
    using assms by (simp add: scalar_op_def comp_def)
  have len: "length c = length y"
    using assms by (metis length_map)
  have x: "bcast2 xlogy (scalar_op (\<lambda>a. a - 1) c) y
             = Inr (map2 (map2 xlogy) (scalar_op (\<lambda>a. a - 1) c) y)"
    by (rule bcast2_same_shape[OF sh])
  have "bcast fsub (reduce_sum_fl (map2 (map2 xlogy) (scalar_op (\<lambda>a. a - 1) c) y)) (lbeta c)
          = Inr (map2 fsub (reduce_sum_fl (map2 (map2 xlogy) (scalar_op (\<lambda>a. a - 1) c) y)) (lbeta c))"
    by (rule bcast_same) (simp add: reduce_sum_fl_def lbeta_def scalar_op_def len)
  moreover from len
  have "map2 fsub (reduce_sum_fl (map2 (map2 xlogy) (scalar_op (\<lambda>a. a - 1) c) y)) (lbeta c)
          = map2 (\<lambda>a y. fsub (fsum (map2 xlogy (map (\<lambda>a. a - 1) a) y)) (lbeta_row a)) c y"
    by (induction c y rule: list_induct2) (simp_all add: reduce_sum_fl_def lbeta_def scalar_op_def)
  ultimately show ?thesis
    by (simp add: static_log_prob_def x bind_e_Inr)
qed

lemma log_prob_eq:
  assumes "map length (invlink self F) = map length Y"
  shows "log_prob self F Y
           = Inr (map2 (\<lambda>a y. fsub (fsum (map2 xlogy (map (\<lambda>a. a - 1) a) y)) (lbeta_row a))
                    (invlink self F) Y)"
  unfolding log_prob_def by (rule static_log_prob_eq[OF assms])




lemma row_nonfinite_iff:
  assumes "length alpha = length y"
  shows "fsub (fsum (map2 xlogy (map (\<lambda>a. a - 1) alpha) y)) (lbeta_row alpha) = None
     \<longleftrightarrow> (\<exists>k<length y. alpha ! k \<noteq> 1 \<and> y ! k \<le> 0)
          \<or> (\<exists>k<length y. pole (alpha ! k)) \<or> pole (sum_list alpha)"
proof -
  have "None \<in> set (map2 xlogy (map (\<lambda>a. a - 1) alpha) y)
          \<longleftrightarrow> (\<exists>k<length y. alpha ! k \<noteq> 1 \<and> y ! k \<le> 0)"
  proof -
    have "None \<in> set (map2 xlogy (map (\<lambda>a. a - 1) alpha) y)
            \<longleftrightarrow> (\<exists>k<length y. xlogy (map (\<lambda>a. a - 1) alpha ! k) (y ! k) = None)"
      by (rule None_in_map2) (simp add: assms)
    also have "\<dots> \<longleftrightarrow> (\<exists>k<length y. alpha ! k \<noteq> 1 \<and> y ! k \<le> 0)"
      using assms by (auto simp: xlogy_None_iff)
    finally show ?thesis .
  qed
  moreover have "None \<in> set (map lgamma alpha) \<longleftrightarrow> (\<exists>k<length y. pole (alpha ! k))"
  proof -
    have "None \<in> set (map lgamma alpha) \<longleftrightarrow> (\<exists>k<length (map lgamma alpha). map lgamma alpha ! k = None)"
      by (metis in_set_conv_nth)
    also have "\<dots> \<longleftrightarrow> (\<exists>k<length y. pole (alpha ! k))"
      using assms by (auto simp: lgamma_None_iff)
    finally show ?thesis .
  qed
  ultimately show ?thesis
    by (simp add: fsub_None_iff fsum_None_iff lbeta_row_def lgamma_None_iff)
qed

section \<open>The operations at inputs that leave the range\<close>

lemma variance_overflow:
  "conditional_variance default_likelihood [[400, 400]] = Inr [[NaN, NaN]]"
proof -
  have l: "float_link default_likelihood [[400, 400]] = [[Fin (exp 400), Fin (exp 400)]]"
    by (simp add: float_link_nth default_likelihood_def tf_exp_def rnd_normal[OF normal_exp_400])
  have s: "f64_sum [Fin (exp 400), Fin (exp 400)] = Fin (2 * exp 400)"
    using rnd_normal[OF normal_exp_400] rnd_normal[OF normal_2_exp_400]
    by (simp add: f64_sum_def)
  have d: "f64_sub (Fin (2 * exp 400)) (Fin (exp 400)) = Fin (exp 400)"
    using rnd_normal[OF normal_exp_400] by (simp add: f64_sub_def)
  have num: "f64_mul (Fin (exp 400)) (Fin (exp 400)) = PInf"
    by (simp only: f64_mul.simps rnd_exp_800)
  have sq: "f64_square (Fin (2 * exp 400)) = PInf"
    by (simp only: f64_square_def f64_mul.simps rnd_4_exp_800)
  have a1: "f64_add (Fin (2 * exp 400)) (Fin 1) = Fin (2 * exp 400 + 1)"
    by (simp only: f64_add.simps rnd_normal[OF normal_2_exp_400_plus_1])
  have "0 < 2 * exp (400::real) + 1"
    by (simp add: add_pos_pos)
  then have den: "f64_mul PInf (Fin (2 * exp 400 + 1)) = PInf"
    by simp
  have e: "f64_div (f64_mul (Fin (exp 400)) (f64_sub (Fin (2 * exp 400)) (Fin (exp 400))))
             (f64_mul (f64_square (Fin (2 * exp 400))) (f64_add (Fin (2 * exp 400)) (Fin 1))) = NaN"
    by (simp only: d num sq a1 den f64_div.simps)
  show ?thesis
    by (simp only: conditional_variance_eq l list.map s e)
qed

lemma mean_overflow:
  "conditional_mean default_likelihood [[1000, 1000]] = Inr [[NaN, NaN]]"
  by (simp add: conditional_mean_eq float_link_nth default_likelihood_def tf_exp_def
        rnd_exp_1000 f64_sum_def)

lemma mean_two_equal:
  "conditional_mean default_likelihood [[0, 0]] = Inr [[Fin (1/2), Fin (1/2)]]"
  by (simp add: conditional_mean_eq float_link_nth default_likelihood_def tf_exp_def
        f64_sum_def rnd_0 rnd_moderate)

lemma mean_400:
  "conditional_mean default_likelihood [[400, 400]] = Inr [[Fin (1/2), Fin (1/2)]]"
proof -
  have l: "float_link default_likelihood [[400, 400]] = [[Fin (exp 400), Fin (exp 400)]]"
    by (simp add: float_link_nth default_likelihood_def tf_exp_def rnd_normal[OF normal_exp_400])
  have s: "f64_sum [Fin (exp 400), Fin (exp 400)] = Fin (2 * exp 400)"
    using rnd_normal[OF normal_exp_400] rnd_normal[OF normal_2_exp_400]
    by (simp add: f64_sum_def)
  show ?thesis
    by (simp add: conditional_mean_eq l s rnd_moderate)
qed

lemma mean_underflow:
  "projr (conditional_mean default_likelihood [[500, - 500]]) ! 0 ! 1 = Fin 0"
proof -
  let ?s = "exp 500 + exp (- 500) :: real"
  have l: "float_link default_likelihood [[500, - 500]] = [[Fin (exp 500), Fin (exp (- 500))]]"
    by (simp add: float_link_nth default_likelihood_def tf_exp_def
          rnd_normal[OF normal_exp_500] rnd_normal[OF normal_exp_minus_500])
  have up: "exp (500::real) \<le> 2 ^ 1000" by (rule exp_le_pow2) simp
  have small: "exp (- 500) \<le> (1::real)" by simp
  have "?s \<le> 2 ^ 1000 + 1" using up small by linarith
  also have "\<dots> < 2 ^ 1023" by simp
  finally have "?s < f64_overflow" using overflow_gt by linarith
  moreover have "f64_min_normal \<le> ?s"
  proof -
    have "f64_min_normal \<le> 1" by (simp add: f64_min_normal_def field_simps)
    moreover have "1 \<le> exp (500::real)" by simp
    moreover have "0 \<le> exp (- 500 :: real)" by simp
    ultimately show ?thesis by linarith
  qed
  ultimately have ns: "normal ?s" by (intro normal_between)
  have s: "f64_sum [Fin (exp 500), Fin (exp (- 500))] = Fin ?s"
    using rnd_normal[OF normal_exp_500] rnd_normal[OF ns] by (simp add: f64_sum_def)
  have spos: "0 < ?s" by (simp add: add_pos_pos)
  have "exp (- 500) / ?s \<le> exp (- 500) / exp 500"
    by (rule divide_left_mono) (simp_all add: add_pos_pos)
  also have "exp (- 500) / exp 500 = exp (- 500 - 500 :: real)"
    by (simp only: exp_diff)
  also have "exp (- 500 - 500 :: real) = exp (- 1000)" by simp
  also have "\<dots> \<le> 1 / 2 ^ 1075" by (rule exp_minus_le_pow2) simp
  finally have "exp (- 500) / ?s \<le> f64_underflow"
    by (simp only: f64_underflow_def)
  moreover have "0 \<le> exp (- 500) / ?s"
    using spos by simp
  ultimately have "\<bar>exp (- 500) / ?s\<bar> \<le> f64_underflow"
    by simp
  then have q: "rnd (exp (- 500) / ?s) = Fin 0" by (rule rnd_underflow)
  have "?s \<noteq> 0" using spos by simp
  then show ?thesis
    by (simp add: conditional_mean_eq l s q)
qed

lemma sample_first_call:
  "static_sample_dir counter_gamma 0 [1, 3] 1 (Some 0) = (Inr [[Fin (1/2), Fin (1/2)]], 1)"
  by (simp add: static_sample_dir_eq counter_gamma_def scalar_op_def f64_sum_def
        rnd_0 rnd_moderate upt_rec)

section \<open>The log-density\<close>





section \<open>The moments\<close>

text \<open>
  Four inputs under the default link. With a single category the mean is
  \<open>\<alpha> / \<alpha> = 1\<close>, not inside \<open>(0, 1)\<close>. At \<open>F = [[1000, 1000]]\<close> the exponentials
  overflow and the row is \<open>Inf / Inf\<close>, a NaN. At \<open>F = [[500, -500]]\<close> the second
  quotient underflows to \<open>0\<close>. At \<open>F = [[-1000]]\<close> the exponential underflows: the
  concentration is \<open>0\<close>, not positive, and the mean is \<open>0 / 0\<close>.
\<close>

theorem conditional_mean_outside_unit_interval:
  "conditional_mean default_likelihood [[0]] = Inr [[Fin 1]]
   \<and> conditional_mean default_likelihood [[1000, 1000]] = Inr [[NaN, NaN]]
   \<and> projr (conditional_mean default_likelihood [[500, - 500]]) ! 0 ! 1 = Fin 0
   \<and> float_link default_likelihood [[- 1000]] = [[Fin 0]]
   \<and> conditional_mean default_likelihood [[- 1000]] = Inr [[NaN]]"
proof (intro conjI)
  show "conditional_mean default_likelihood [[0]] = Inr [[Fin 1]]"
    by (simp add: conditional_mean_eq float_link_nth default_likelihood_def tf_exp_def
          f64_sum_def rnd_0 rnd_moderate)
  show "conditional_mean default_likelihood [[1000, 1000]] = Inr [[NaN, NaN]]"
    by (rule mean_overflow)
  show "projr (conditional_mean default_likelihood [[500, - 500]]) ! 0 ! 1 = Fin 0"
    by (rule mean_underflow)
  show "float_link default_likelihood [[- 1000]] = [[Fin 0]]"
    by (simp add: float_link_nth default_likelihood_def tf_exp_def rnd_exp_minus_1000)
  show "conditional_mean default_likelihood [[- 1000]] = Inr [[NaN]]"
    by (simp add: conditional_mean_eq float_link_nth default_likelihood_def tf_exp_def
          rnd_exp_minus_1000 f64_sum_def rnd_0)
qed

text \<open>
  C3. \<open>conditional_mean F\<close> is \<open>\<alpha> / row-sum \<alpha>\<close> entry by entry, with
  \<open>\<alpha> = invlink F\<close>. For a row of positive concentrations whose normalisation stays
  inside the float64 range, the output row sums to one and every entry lies in
  \<open>(0, 1]\<close>. The default link gives the positive concentration \<open>exp f\<close> wherever
  \<open>exp f\<close> is inside the normal range.
\<close>

theorem conditional_mean_rows:
  "\<exists>M. conditional_mean self F = Inr M
     \<and> M = map (\<lambda>r. map (\<lambda>a. f64_div a (f64_sum r)) r) (float_link self F)
     \<and> (\<forall>i<length M.
            list_all (\<lambda>a. 0 < a) (invlink self F ! i)
            \<and> mean_in_range (invlink self F ! i) \<longrightarrow>
            f64_sum (M ! i) = Fin 1
            \<and> (\<forall>k<length (M ! i). \<exists>m. M ! i ! k = Fin m \<and> 0 < m \<and> m \<le> 1))
     \<and> (\<forall>i<length F. \<forall>k<length (F ! i). normal (exp (F ! i ! k)) \<longrightarrow>
            float_link (self\<lparr>invlink := tf_exp\<rparr>) F ! i ! k = Fin (exp (F ! i ! k))
            \<and> 0 < exp (F ! i ! k))"
proof -
  let ?A = "invlink self F"
  let ?M = "map (\<lambda>r. map (\<lambda>a. f64_div a (f64_sum r)) r) (float_link self F)"
  have rows: "f64_sum (?M ! i) = Fin 1
            \<and> (\<forall>k<length (?M ! i). \<exists>m. ?M ! i ! k = Fin m \<and> 0 < m \<and> m \<le> 1)"
    if i: "i < length ?M" and pos: "list_all (\<lambda>a. 0 < a) (?A ! i)"
      and rng: "mean_in_range (?A ! i)" for i
  proof -
    let ?r = "?A ! i"
    have iA: "i < length ?A" using i by (simp add: float_link_nth)
    have Mi: "?M ! i = map (\<lambda>a. Fin (a / sum_list ?r)) ?r"
      using i iA mean_row_exact[OF pos rng] by (simp add: float_link_row)
    have p: "\<forall>x\<in>set ?r. 0 < x" using pos by (simp add: list_all_iff)
    have S: "0 < sum_list ?r"
      using rng min_normal_pos by (simp add: mean_in_range_def)
    have "\<exists>m. ?M ! i ! k = Fin m \<and> 0 < m \<and> m \<le> 1" if k: "k < length (?M ! i)" for k
    proof -
      have kr: "k < length ?r" using k Mi by simp
      then have mem: "?r ! k \<in> set ?r" by simp
      have "0 < ?r ! k" using p mem by blast
      moreover have "?r ! k \<le> sum_list ?r" by (rule sum_list_ge_member[OF p mem])
      ultimately show ?thesis using S kr by (simp add: Mi)
    qed
    then show ?thesis
      using mean_row_sum[OF pos rng] by (simp add: Mi)
  qed
  have link: "float_link (self\<lparr>invlink := tf_exp\<rparr>) F ! i ! k = Fin (exp (F ! i ! k))
            \<and> 0 < exp (F ! i ! k)"
    if "i < length F" "k < length (F ! i)" "normal (exp (F ! i ! k))" for i k
    using that by (simp add: float_link_nth tf_exp_def rnd_normal)
  show ?thesis
    using rows link by (intro exI[of _ ?M] conjI allI impI conditional_mean_eq) blast+
qed

text \<open>The theorem at \<open>F = [[0, 0]]\<close> with the default link.\<close>

theorem conditional_mean_rows_witness:
  "invlink default_likelihood [[0, 0]] ! 0 = [1, 1]
   \<and> list_all (\<lambda>a. 0 < a) (invlink default_likelihood [[0, 0]] ! 0)
   \<and> mean_in_range (invlink default_likelihood [[0, 0]] ! 0)
   \<and> normal (exp 0)
   \<and> conditional_mean default_likelihood [[0, 0]] = Inr [[Fin (1/2), Fin (1/2)]]
   \<and> f64_sum [Fin (1/2), Fin (1/2)] = Fin 1"
proof -
  have a: "invlink default_likelihood [[0, 0]] = [[1, 1]]"
    by (simp add: default_likelihood_def tf_exp_def)
  have n: "normal 1" "normal (1/2)"
    by (rule normal_moderate; simp)+
  have "(2::real) < f64_overflow"
    by (rule less_trans[OF _ overflow_gt]) simp
  then have r: "mean_in_range [1, 1]"
    using n min_normal_le_one by (simp add: mean_in_range_def)
  from conditional_mean_rows[of default_likelihood "[[0, 0]]"]
  obtain M where M: "conditional_mean default_likelihood [[0, 0]] = Inr M"
    and s: "\<forall>i<length M.
            list_all (\<lambda>a. 0 < a) (invlink default_likelihood [[0, 0]] ! i)
            \<and> mean_in_range (invlink default_likelihood [[0, 0]] ! i) \<longrightarrow>
            f64_sum (M ! i) = Fin 1
            \<and> (\<forall>k<length (M ! i). \<exists>m. M ! i ! k = Fin m \<and> 0 < m \<and> m \<le> 1)"
    by blast
  have e: "M = [[Fin (1/2), Fin (1/2)]]"
    using M mean_two_equal by simp
  have "f64_sum (M ! 0) = Fin 1"
    using s[rule_format, of 0] r by (simp add: a e)
  then show ?thesis
    using M e r n by (simp add: a)
qed

text \<open>
  At \<open>F = [[400, 400]]\<close> under the default link \<open>\<alpha> (S - \<alpha>)\<close> and \<open>S\<^sup>2\<close> overflow, and
  the variance is \<open>Inf / Inf\<close>, a NaN.
\<close>

theorem conditional_variance_overflow:
  "conditional_variance default_likelihood [[400, 400]] = Inr [[NaN, NaN]]"
  by (rule variance_overflow)

text \<open>
  C4. \<open>conditional_variance F\<close> is \<open>\<alpha>\<^sub>k (S - \<alpha>\<^sub>k) / (S\<^sup>2 (S + 1))\<close> entry by entry,
  with \<open>\<alpha> = invlink F\<close> and \<open>S\<close> the row sum. For non-negative concentrations, so for
  every \<open>F\<close> under the default link, every entry is non-negative or a NaN. For
  \<open>F = [[ln 2, ln 2]]\<close> the concentrations are \<open>[2, 2]\<close> and both variances are
  \<open>1/20\<close>.
\<close>

theorem conditional_variance_formula:
  "(\<exists>V. conditional_variance self F = Inr V
      \<and> V = map (\<lambda>r. map (\<lambda>a. f64_div (f64_mul a (f64_sub (f64_sum r) a))
                       (f64_mul (f64_square (f64_sum r)) (f64_add (f64_sum r) (Fin 1)))) r)
                (float_link self F)
      \<and> (\<forall>i<length V. list_all (\<lambda>a. 0 \<le> a) (invlink self F ! i) \<longrightarrow>
            (\<forall>k<length (V ! i). V ! i ! k = NaN \<or> f64_nonneg (V ! i ! k)))
      \<and> (invlink self = tf_exp \<longrightarrow>
            (\<forall>i<length V. \<forall>k<length (V ! i). V ! i ! k = NaN \<or> f64_nonneg (V ! i ! k))))
   \<and> tf_exp [[ln 2, ln 2]] = [[2, 2]]
   \<and> conditional_variance (self\<lparr>invlink := tf_exp\<rparr>) [[ln 2, ln 2]]
        = Inr [[Fin (1/20), Fin (1/20)]]"
proof -
  let ?A = "invlink self F"
  let ?V = "map (\<lambda>r. map (\<lambda>a. f64_div (f64_mul a (f64_sub (f64_sum r) a))
                       (f64_mul (f64_square (f64_sum r)) (f64_add (f64_sum r) (Fin 1)))) r)
                (float_link self F)"
  have gen: "?V ! i ! k = NaN \<or> f64_nonneg (?V ! i ! k)"
    if i: "i < length ?V" and nn: "list_all (\<lambda>a. 0 \<le> a) (?A ! i)" and k: "k < length (?V ! i)"
    for i k
  proof -
    let ?r = "float_link self F ! i"
    have iA: "i < length ?A" using i by (simp add: float_link_nth)
    have r: "?r = map rnd (?A ! i)" by (rule float_link_row[OF iA])
    have good: "\<forall>x\<in>set ?r. f64_nonneg_repr x"
      using nn by (auto simp: r list_all_iff rnd_nonneg_repr)
    have kr: "k < length ?r" using i k by simp
    then have mem: "?r ! k \<in> set ?r" by simp
    show ?thesis
      using variance_entry_sign[OF good mem] i kr by simp
  qed
  have dflt: "?V ! i ! k = NaN \<or> f64_nonneg (?V ! i ! k)"
    if "invlink self = tf_exp" "i < length ?V" "k < length (?V ! i)" for i k
  proof -
    have "i < length F" using that(1,2) by (simp add: float_link_nth tf_exp_def)
    then have "list_all (\<lambda>a. 0 \<le> a) (?A ! i)"
      using that(1) tf_exp_nonneg by simp
    then show ?thesis using gen that(2,3) by blast
  qed
  have "\<exists>V. conditional_variance self F = Inr V \<and> V = ?V
      \<and> (\<forall>i<length V. list_all (\<lambda>a. 0 \<le> a) (?A ! i) \<longrightarrow>
            (\<forall>k<length (V ! i). V ! i ! k = NaN \<or> f64_nonneg (V ! i ! k)))
      \<and> (invlink self = tf_exp \<longrightarrow>
            (\<forall>i<length V. \<forall>k<length (V ! i). V ! i ! k = NaN \<or> f64_nonneg (V ! i ! k)))"
    using gen dflt by (intro exI[of _ ?V] conjI allI impI conditional_variance_eq) blast+
  moreover have "tf_exp [[ln 2, ln 2]] = [[2, 2]]"
    by (simp add: tf_exp_def)
  moreover have "conditional_variance (self\<lparr>invlink := tf_exp\<rparr>) [[ln 2, ln 2]]
        = Inr [[Fin (1/20), Fin (1/20)]]"
    by (simp add: conditional_variance_eq float_link_nth tf_exp_def f64_sum_def f64_sub_def
          f64_square_def rnd_0 rnd_moderate)
  ultimately show ?thesis by blast
qed

text \<open>The theorem at \<open>F = [[0, 0]]\<close> with the default link: both variances are \<open>1/12\<close>.\<close>

theorem conditional_variance_formula_witness:
  "list_all (\<lambda>a. 0 \<le> a) (invlink default_likelihood [[0, 0]] ! 0)
   \<and> invlink default_likelihood = tf_exp
   \<and> conditional_variance default_likelihood [[0, 0]] = Inr [[Fin (1/12), Fin (1/12)]]
   \<and> f64_nonneg (Fin (1/12))"
proof -
  have a: "invlink default_likelihood [[0, 0]] = [[1, 1]]"
    by (simp add: default_likelihood_def tf_exp_def)
  have l: "float_link default_likelihood [[0, 0]] = [[Fin 1, Fin 1]]"
    by (simp add: float_link_nth a rnd_moderate)
  from conditional_variance_formula[of default_likelihood "[[0, 0]]"]
  have "conditional_variance default_likelihood [[0, 0]] = Inr [[Fin (1/12), Fin (1/12)]]"
    by (auto simp: l f64_sum_def f64_sub_def f64_square_def rnd_0 rnd_moderate)
  then show ?thesis
    by (simp add: a f64_nonneg_def) (simp add: default_likelihood_def)
qed

text \<open>
  C5. With the default link and three categories, \<open>F = [[0, 0, 0]]\<close> gives the
  concentrations \<open>[1, 1, 1]\<close>, the mean \<open>[1/3, 1/3, 1/3]\<close> and, at
  \<open>Y = [[1/3, 1/3, 1/3]]\<close>, the log-density \<open>ln (\<Gamma>(3) / \<Gamma>(1)\<^sup>3) = ln 2\<close>.
\<close>

theorem uniform_scenario:
  "tf_exp [[0, 0, 0]] = [[1, 1, 1]]
   \<and> conditional_mean (self\<lparr>invlink := tf_exp\<rparr>) [[0, 0, 0]]
       = Inr [[Fin (1/3), Fin (1/3), Fin (1/3)]]
   \<and> log_prob (self\<lparr>invlink := tf_exp\<rparr>) [[0, 0, 0]] [[1/3, 1/3, 1/3]] = Inr [Some (ln 2)]
   \<and> ln (Gamma 3 / Gamma 1 ^ 3) = ln 2"
proof (intro conjI)
  show "tf_exp [[0, 0, 0]] = [[1, 1, 1]]"
    by (simp add: tf_exp_def)
  show "conditional_mean (self\<lparr>invlink := tf_exp\<rparr>) [[0, 0, 0]]
       = Inr [[Fin (1/3), Fin (1/3), Fin (1/3)]]"
    by (simp add: conditional_mean_eq float_link_nth tf_exp_def f64_sum_def rnd_0 rnd_moderate)
  have "map length (invlink (self\<lparr>invlink := tf_exp\<rparr>) [[0, 0, 0]]) = map length [[1/3, 1/3, 1/3::real]]"
    by (simp add: tf_exp_def)
  from log_prob_eq[OF this]
  show "log_prob (self\<lparr>invlink := tf_exp\<rparr>) [[0, 0, 0]] [[1/3, 1/3, 1/3]] = Inr [Some (ln 2)]"
    by (simp add: fsum_Cons fsum_Nil fadd_Some fsub_Some fmul_Some lbeta_row_def
          lgamma_1 lgamma_3 tf_exp_def xlogy_def tf_log_def)
  show "ln (Gamma 3 / Gamma 1 ^ 3) = ln 2"
    by (simp add: Gamma_1 Gamma_3)
qed

section \<open>Construction\<close>

text \<open>
  C6. A constructed likelihood holds the link it was given, the exponential when none
  was given, and the sample count 100, whatever the arguments; construction fails only
  when the framework's initialiser does. No operation reads the sample count: changing
  it changes no result. The operations return tensors and no object, so none of them
  can change it.
\<close>

theorem Dirichlet_init_sample_count:
  "(\<forall>obj. Dirichlet_init super_init invlink_arg kwargs = Inr obj \<longrightarrow>
        invlink obj = (case invlink_arg of None \<Rightarrow> tf_exp | Some l \<Rightarrow> l)
        \<and> num_monte_carlo_points obj = 100)
   \<and> ((\<exists>obj. Dirichlet_init super_init invlink_arg kwargs = Inr obj)
        \<longleftrightarrow> (\<exists>b. super_init kwargs = Inr b))
   \<and> log_prob (self\<lparr>num_monte_carlo_points := n\<rparr>) F Y = log_prob self F Y
   \<and> conditional_mean (self\<lparr>num_monte_carlo_points := n\<rparr>) F = conditional_mean self F
   \<and> conditional_variance (self\<lparr>num_monte_carlo_points := n\<rparr>) F = conditional_variance self F"
  by (auto simp: Dirichlet_init_def bind_e_def log_prob_def conditional_mean_def
        conditional_variance_def float_link_def split: sum.splits)

text \<open>The theorem at a construction with no link argument.\<close>

theorem Dirichlet_init_sample_count_witness:
  "Dirichlet_init accept_kwargs None () = Inr default_likelihood
   \<and> invlink default_likelihood = tf_exp
   \<and> num_monte_carlo_points default_likelihood = 100"
proof -
  have "Dirichlet_init accept_kwargs None () = Inr default_likelihood"
    by (simp add: Dirichlet_init_def accept_kwargs_def bind_e_def default_likelihood_def)
  with Dirichlet_init_sample_count[where super_init = accept_kwargs and invlink_arg = None
      and kwargs = "()" and self = default_likelihood and n = 0 and F = "[]" and Y = "[]"]
  show ?thesis
    by simp
qed

section \<open>Sampling\<close>

text \<open>
  Two calls with the same concentration, count and seed, the second made after the
  first: a sampler whose draws depend on the state of the generator returns different
  rows. Draws of \<open>f64_large\<close> are positive, their sum overflows, and the row is
  \<open>[0, 0]\<close>.
\<close>

theorem sample_dir_successive_calls:
  "static_sample_dir counter_gamma 0 [1, 3] 1 (Some 0) = (Inr [[Fin (1/2), Fin (1/2)]], 1)
   \<and> static_sample_dir counter_gamma 1 [1, 3] 1 (Some 0) = (Inr [[Fin (1/3), Fin (2/3)]], 2)
   \<and> static_sample_dir large_gamma () [1, 3] 1 (Some 0) = (Inr [[Fin 0, Fin 0]], ())"
proof (intro conjI)
  show "static_sample_dir counter_gamma 0 [1, 3] 1 (Some 0) = (Inr [[Fin (1/2), Fin (1/2)]], 1)"
    by (rule sample_first_call)
  show "static_sample_dir counter_gamma 1 [1, 3] 1 (Some 0) = (Inr [[Fin (1/3), Fin (2/3)]], 2)"
    by (simp add: static_sample_dir_eq counter_gamma_def scalar_op_def f64_sum_def
          rnd_0 rnd_moderate upt_rec)
  have s: "f64_sum [Fin f64_large, Fin f64_large] = PInf"
    by (simp add: f64_sum_def rnd_large rnd_large_twice)
  show "static_sample_dir large_gamma () [1, 3] 1 (Some 0) = (Inr [[Fin 0, Fin 0]], ())"
    by (simp add: static_sample_dir_eq large_gamma_def scalar_op_def rnd_large s)
qed

text \<open>
  C7. \<open>_sample_dir\<close> divides every row of gamma draws by its sum. With the draws a
  function of the generator state, the sample count, the concentration and the seed,
  every draw positive and the normalisation of every row inside the float64 range,
  each returned row sums to one. The result is determined by the draws: a call for
  which the sampler returns the same draws, as a deterministic generator does from the
  same state with the same seed, returns the same tensor.
\<close>

theorem sample_dir_rows:
  assumes "list_all (\<lambda>row. list_all (\<lambda>g. 0 < g) row \<and> mean_in_range row)
             (fst (random_gamma st n concentration seed))"
  shows "\<exists>R. fst (static_sample_dir random_gamma st concentration n seed) = Inr R
           \<and> R = map (\<lambda>r. map (\<lambda>a. f64_div a (f64_sum r)) r)
                   (scalar_op rnd (fst (random_gamma st n concentration seed)))
           \<and> list_all (\<lambda>row. f64_sum row = Fin 1) R
           \<and> (\<forall>sampler st2.
                 fst (sampler st2 n concentration seed) = fst (random_gamma st n concentration seed)
                 \<longrightarrow> fst (static_sample_dir sampler st2 concentration n seed) = Inr R)"
proof -
  let ?G = "fst (random_gamma st n concentration seed)"
  let ?R = "map (\<lambda>r. map (\<lambda>a. f64_div a (f64_sum r)) r) (scalar_op rnd ?G)"
  have "f64_sum (map (\<lambda>a. f64_div a (f64_sum (map rnd g))) (map rnd g)) = Fin 1"
    if "g \<in> set ?G" for g
  proof -
    have pos: "list_all (\<lambda>x. 0 < x) g" and rng: "mean_in_range g"
      using assms that by (simp_all add: list_all_iff)
    show ?thesis
      by (simp only: mean_row_exact[OF pos rng] mean_row_sum[OF pos rng])
  qed
  then have "list_all (\<lambda>row. f64_sum row = Fin 1) ?R"
    by (simp add: list_all_iff scalar_op_def)
  then show ?thesis
    by (intro exI[of _ ?R] conjI allI impI) (simp_all add: static_sample_dir_eq)
qed

text \<open>The theorem at the first call of the counting sampler.\<close>

theorem sample_dir_rows_witness:
  "list_all (\<lambda>row. list_all (\<lambda>g. 0 < g) row \<and> mean_in_range row)
     (fst (counter_gamma 0 1 [1, 3] (Some 0)))
   \<and> fst (static_sample_dir counter_gamma 0 [1, 3] 1 (Some 0)) = Inr [[Fin (1/2), Fin (1/2)]]
   \<and> f64_sum [Fin (1/2), Fin (1/2)] = Fin 1"
proof -
  have g: "fst (counter_gamma 0 1 [1, 3] (Some 0)) = [[1, 1]]"
    by (simp add: counter_gamma_def upt_rec)
  have n: "normal 1" "normal (1/2)"
    by (rule normal_moderate; simp)+
  have "(2::real) < f64_overflow"
    by (rule less_trans[OF _ overflow_gt]) simp
  then have r: "mean_in_range [1, 1]"
    using n min_normal_le_one by (simp add: mean_in_range_def)
  have h: "list_all (\<lambda>row. list_all (\<lambda>g. 0 < g) row \<and> mean_in_range row)
             (fst (counter_gamma 0 1 [1, 3] (Some 0)))"
    unfolding g using r by simp
  from sample_dir_rows[where random_gamma = counter_gamma and st = 0 and n = 1
      and concentration = "[1, 3]" and seed = "Some 0", OF h]
  obtain R where R: "fst (static_sample_dir counter_gamma 0 [1, 3] 1 (Some 0)) = Inr R"
    and s: "list_all (\<lambda>row. f64_sum row = Fin 1) R"
    by blast
  have e: "R = [[Fin (1/2), Fin (1/2)]]"
    using R unfolding sample_first_call by simp
  show ?thesis
    using h R s e by simp
qed

section \<open>Malformed inputs\<close>

text \<open>
  A label row off the simplex need not give a non-finite value: \<open>[3/10, 3/10]\<close> sums to
  \<open>3/5\<close> and its log-density under the concentrations \<open>[1, 1]\<close> is \<open>0\<close>. Labels whose
  shape does not broadcast against the concentrations are rejected by the backend.
\<close>

theorem log_prob_off_simplex_finite:
  "sum_list [3/10, 3/10] \<noteq> (1::real)
   \<and> log_prob default_likelihood [[0, 0]] [[3/10, 3/10]] = Inr [Some 0]
   \<and> log_prob default_likelihood [[0, 0]] [[1/3, 1/3, 1/3]] = Inl InvalidArgumentError"
proof (intro conjI)
  show "sum_list [3/10, 3/10] \<noteq> (1::real)" by simp
  have "map length (invlink default_likelihood [[0, 0]]) = map length [[3/10, 3/10::real]]"
    by (simp add: default_likelihood_def tf_exp_def)
  from log_prob_eq[OF this]
  show "log_prob default_likelihood [[0, 0]] [[3/10, 3/10]] = Inr [Some 0]"
    by (simp add: default_likelihood_def fsum_Cons fsum_Nil fadd_Some fsub_Some fmul_Some lbeta_row_def lgamma_1 lgamma_2 tf_exp_def xlogy_def tf_log_def)
  show "log_prob default_likelihood [[0, 0]] [[1/3, 1/3, 1/3]] = Inl InvalidArgumentError"
    by (simp add: log_prob_def static_log_prob_def default_likelihood_def tf_exp_def scalar_op_def
          bcast2_def bcast_def bind_e_def)
qed

text \<open>
  C8. The operations validate nothing and raise nothing of their own.
  \<open>conditional_mean\<close> and \<open>conditional_variance\<close> return a tensor for every \<open>F\<close>,
  and \<open>log_prob\<close> does so for \<open>F\<close> and \<open>Y\<close> of the same shape. These malformed inputs
  give a non-finite entry of the result: in the log-density a label that is not
  positive while its concentration differs from one, and a concentration or a row sum
  at a pole of the gamma function; in the mean a row of concentrations that sums to
  zero.
\<close>

theorem operations_return_tensors:
  "(\<exists>M. conditional_mean self F = Inr M
       \<and> (\<forall>i<length M. f64_sum (float_link self F ! i) = Fin 0 \<longrightarrow>
              (\<forall>k<length (M ! i). \<not> f64_finite (M ! i ! k))))
   \<and> (\<exists>V. conditional_variance self F = Inr V)
   \<and> (map length (invlink self F) = map length Y \<longrightarrow>
        (\<exists>R. log_prob self F Y = Inr R \<and> length R = length Y
           \<and> (\<forall>i<length R.
                 (\<exists>k<length (Y ! i). invlink self F ! i ! k \<noteq> 1 \<and> Y ! i ! k \<le> 0)
                 \<or> (\<exists>k<length (Y ! i). pole (invlink self F ! i ! k))
                 \<or> pole (sum_list (invlink self F ! i)) \<longrightarrow> R ! i = None)))"
proof (intro conjI impI)
  show "\<exists>M. conditional_mean self F = Inr M
       \<and> (\<forall>i<length M. f64_sum (float_link self F ! i) = Fin 0 \<longrightarrow>
              (\<forall>k<length (M ! i). \<not> f64_finite (M ! i ! k)))"
    by (simp add: conditional_mean_eq div_by_zero_not_finite)
  show "\<exists>V. conditional_variance self F = Inr V"
    by (simp add: conditional_variance_eq)
next
  let ?A = "invlink self F"
  assume sh: "map length ?A = map length Y"
  have len: "length ?A = length Y"
    using sh by (metis length_map)
  have k: "length (?A ! i) = length (Y ! i)" if "i < length Y" for i
  proof -
    have "map length ?A ! i = map length Y ! i" using sh by simp
    then show ?thesis using that len by simp
  qed
  show "\<exists>R. log_prob self F Y = Inr R \<and> length R = length Y
           \<and> (\<forall>i<length R.
                 (\<exists>k<length (Y ! i). ?A ! i ! k \<noteq> 1 \<and> Y ! i ! k \<le> 0)
                 \<or> (\<exists>k<length (Y ! i). pole (?A ! i ! k))
                 \<or> pole (sum_list (?A ! i)) \<longrightarrow> R ! i = None)"
    using len by (simp add: log_prob_eq[OF sh] row_nonfinite_iff[OF k])
qed

text \<open>
  The theorem at \<open>F = [[ln 2, ln 2]]\<close>, \<open>Y = [[0, 1]]\<close> and at \<open>F = [[-1000]]\<close> with
  the default link.
\<close>

theorem operations_return_tensors_witness:
  "map length (invlink default_likelihood [[ln 2, ln 2]]) = map length [[0, 1::real]]
   \<and> invlink default_likelihood [[ln 2, ln 2]] ! 0 ! 0 \<noteq> 1
   \<and> log_prob default_likelihood [[ln 2, ln 2]] [[0, 1]] = Inr [None]
   \<and> f64_sum (float_link default_likelihood [[- 1000]] ! 0) = Fin 0
   \<and> conditional_mean default_likelihood [[- 1000]] = Inr [[NaN]]"
proof -
  have a: "invlink default_likelihood [[ln 2, ln 2]] = [[2, 2]]"
    by (simp add: default_likelihood_def tf_exp_def)
  have sh: "map length (invlink default_likelihood [[ln 2, ln 2]]) = map length [[0, 1::real]]"
    by (simp add: a)
  from operations_return_tensors[of default_likelihood "[[ln 2, ln 2]]" "[[0, 1]]"] sh
  obtain R where R: "log_prob default_likelihood [[ln 2, ln 2]] [[0, 1]] = Inr R"
    and l: "length R = 1"
    and n: "\<forall>i<length R.
                 (\<exists>k<length ([[0, 1::real]] ! i).
                    invlink default_likelihood [[ln 2, ln 2]] ! i ! k \<noteq> 1 \<and> [[0, 1::real]] ! i ! k \<le> 0)
                 \<or> (\<exists>k<length ([[0, 1::real]] ! i). pole (invlink default_likelihood [[ln 2, ln 2]] ! i ! k))
                 \<or> pole (sum_list (invlink default_likelihood [[ln 2, ln 2]] ! i)) \<longrightarrow> R ! i = None"
    by auto
  have "\<exists>k<length ([[0, 1::real]] ! 0).
          invlink default_likelihood [[ln 2, ln 2]] ! 0 ! k \<noteq> 1 \<and> [[0, 1::real]] ! 0 ! k \<le> 0"
    by (rule exI[of _ 0]) (simp add: a)
  with n l have "R ! 0 = None" by simp
  with l have "R = [None]" by (cases R) auto
  moreover have "f64_sum (float_link default_likelihood [[- 1000]] ! 0) = Fin 0"
    by (simp add: float_link_nth default_likelihood_def tf_exp_def rnd_exp_minus_1000
          f64_sum_def rnd_0)
  moreover have "conditional_mean default_likelihood [[- 1000]] = Inr [[NaN]]"
    by (simp add: conditional_mean_eq float_link_nth default_likelihood_def tf_exp_def
          rnd_exp_minus_1000 f64_sum_def rnd_0)
  ultimately show ?thesis
    using R sh by (simp add: a)
qed

section \<open>Relations between the operations\<close>

text \<open>
  At \<open>F = [[400, 400]]\<close> under the default link the variance is a NaN, while the mean
  is \<open>[1/2, 1/2]\<close> and \<open>m (1 - m) / (S + 1)\<close> computed from it is a number.
\<close>

theorem variance_from_mean_overflow:
  "conditional_variance default_likelihood [[400, 400]] = Inr [[NaN, NaN]]
   \<and> conditional_mean default_likelihood [[400, 400]] = Inr [[Fin (1/2), Fin (1/2)]]
   \<and> f64_sum (float_link default_likelihood [[400, 400]] ! 0) = Fin (2 * exp 400)
   \<and> f64_div (f64_mul (Fin (1/2)) (f64_sub (Fin 1) (Fin (1/2))))
              (f64_add (Fin (2 * exp 400)) (Fin 1)) \<noteq> NaN"
proof (intro conjI)
  show "conditional_variance default_likelihood [[400, 400]] = Inr [[NaN, NaN]]"
    by (rule variance_overflow)
  show "conditional_mean default_likelihood [[400, 400]] = Inr [[Fin (1/2), Fin (1/2)]]"
    by (rule mean_400)
  show "f64_sum (float_link default_likelihood [[400, 400]] ! 0) = Fin (2 * exp 400)"
    using rnd_normal[OF normal_exp_400] rnd_normal[OF normal_2_exp_400]
    by (simp add: float_link_nth default_likelihood_def tf_exp_def f64_sum_def)
  have "0 < 2 * exp (400::real) + 1"
    by (simp add: add_pos_pos)
  then show "f64_div (f64_mul (Fin (1/2)) (f64_sub (Fin 1) (Fin (1/2))))
              (f64_add (Fin (2 * exp 400)) (Fin 1)) \<noteq> NaN"
    by (simp add: rnd_normal[OF normal_2_exp_400_plus_1] f64_sub_def rnd_moderate rnd_not_NaN)
qed

text \<open>
  C9. For a row of positive concentrations on which every intermediate result of the
  two computations stays inside the normal range, the variance is, entry by entry,
  \<open>m (1 - m) / (S + 1)\<close>, where \<open>m\<close> is the corresponding entry of the mean and \<open>S\<close>
  the row sum of the concentrations.
\<close>

theorem variance_from_mean:
  "\<exists>M V. conditional_mean self F = Inr M \<and> conditional_variance self F = Inr V
     \<and> length M = length V
     \<and> (\<forall>i<length V.
           list_all (\<lambda>a. 0 < a) (invlink self F ! i) \<and> variance_in_range (invlink self F ! i) \<longrightarrow>
           V ! i = map (\<lambda>m. f64_div (f64_mul m (f64_sub (Fin 1) m))
                                    (f64_add (f64_sum (float_link self F ! i)) (Fin 1)))
                       (M ! i))"
proof -
  let ?A = "invlink self F"
  let ?M = "map (\<lambda>r. map (\<lambda>a. f64_div a (f64_sum r)) r) (float_link self F)"
  let ?V = "map (\<lambda>r. map (\<lambda>a. f64_div (f64_mul a (f64_sub (f64_sum r) a))
                       (f64_mul (f64_square (f64_sum r)) (f64_add (f64_sum r) (Fin 1)))) r)
                (float_link self F)"
  have row: "?V ! i = map (\<lambda>m. f64_div (f64_mul m (f64_sub (Fin 1) m))
                                    (f64_add (f64_sum (float_link self F ! i)) (Fin 1)))
                       (?M ! i)"
    if i: "i < length ?V" and pos: "list_all (\<lambda>a. 0 < a) (?A ! i)"
      and rng: "variance_in_range (?A ! i)" for i
  proof -
    let ?al = "?A ! i"
    let ?s = "sum_list ?al"
    have iA: "i < length ?A" using i by (simp add: float_link_nth)
    have p: "\<forall>a\<in>set ?al. 0 < a" using pos by (simp add: list_all_iff)
    have s: "?s < f64_overflow" and s1: "normal (?s + 1)" and s2: "normal (?s\<^sup>2)"
      and s3: "normal (?s\<^sup>2 * (?s + 1))"
      using rng by (simp_all add: variance_in_range_def Let_def)
    have e: "\<forall>a\<in>set ?al. normal a \<and> normal (?s - a) \<and> normal (a * (?s - a))
                          \<and> normal (a * (?s - a) / (?s\<^sup>2 * (?s + 1)))
                          \<and> normal (a / ?s) \<and> normal (1 - a / ?s)
                          \<and> normal (a / ?s * (1 - a / ?s))"
      using rng by (simp add: variance_in_range_def Let_def list_all_iff)
    have r: "float_link self F ! i = map Fin ?al"
      using e by (simp add: float_link_row[OF iA] rnd_normal)
    have S: "f64_sum (map Fin ?al) = Fin ?s"
      by (rule f64_sum_exact) (use p e s in auto)
    have "f64_div (f64_mul (Fin a) (f64_sub (Fin ?s) (Fin a)))
                 (f64_mul (f64_square (Fin ?s)) (f64_add (Fin ?s) (Fin 1)))
           = f64_div (f64_mul (f64_div (Fin a) (Fin ?s)) (f64_sub (Fin 1) (f64_div (Fin a) (Fin ?s))))
                     (f64_add (Fin ?s) (Fin 1))"
      if "a \<in> set ?al" for a
    proof -
      have a: "0 < a" using p that by blast
      have le: "a \<le> ?s" by (rule sum_list_ge_member[OF p that])
      have "?s \<noteq> 0" using a le by linarith
      then have m: "f64_div (Fin a) (Fin ?s) = Fin (a / ?s)"
        using e that by (simp add: rnd_normal)
      show ?thesis
        unfolding m using e that s1 s2 s3 by (intro variance_entry_exact[OF a le]) blast+
    qed
    then show ?thesis
      using i iA by (simp add: r S comp_def)
  qed
  show ?thesis
    using row
    by (intro exI[of _ ?M] exI[of _ ?V] conjI allI impI conditional_mean_eq conditional_variance_eq)
      simp_all
qed

text \<open>The theorem at \<open>F = [[0, 0]]\<close> with the default link.\<close>

theorem variance_from_mean_witness:
  "list_all (\<lambda>a. 0 < a) (invlink default_likelihood [[0, 0]] ! 0)
   \<and> variance_in_range (invlink default_likelihood [[0, 0]] ! 0)
   \<and> conditional_mean default_likelihood [[0, 0]] = Inr [[Fin (1/2), Fin (1/2)]]
   \<and> conditional_variance default_likelihood [[0, 0]] = Inr [[Fin (1/12), Fin (1/12)]]
   \<and> f64_div (f64_mul (Fin (1/2)) (f64_sub (Fin 1) (Fin (1/2)))) (f64_add (Fin 2) (Fin 1))
       = Fin (1/12)"
proof -
  have a: "invlink default_likelihood [[0, 0]] = [[1, 1]]"
    by (simp add: default_likelihood_def tf_exp_def)
  have l: "float_link default_likelihood [[0, 0]] = [[Fin 1, Fin 1]]"
    by (simp add: float_link_nth a rnd_moderate)
  have S: "f64_sum [Fin 1, Fin 1] = Fin 2"
    by (simp add: f64_sum_def rnd_0 rnd_moderate)
  have n: "normal 1" "normal (1/2)" "normal 3" "normal 4" "normal 12" "normal (1/12)" "normal (1/4)"
    by (rule normal_moderate; simp)+
  have "(2::real) < f64_overflow"
    by (rule less_trans[OF _ overflow_gt]) simp
  then have r: "variance_in_range [1, 1]"
    using n by (simp add: variance_in_range_def power2_eq_square)
  have f: "f64_div (f64_mul (Fin (1/2)) (f64_sub (Fin 1) (Fin (1/2)))) (f64_add (Fin 2) (Fin 1))
       = Fin (1/12)"
    by (simp add: f64_sub_def rnd_moderate)
  from variance_from_mean[of default_likelihood "[[0, 0]]"]
  obtain M V where M: "conditional_mean default_likelihood [[0, 0]] = Inr M"
    and V: "conditional_variance default_likelihood [[0, 0]] = Inr V"
    and lv: "length M = length V"
    and e: "\<forall>i<length V.
           list_all (\<lambda>a. 0 < a) (invlink default_likelihood [[0, 0]] ! i)
           \<and> variance_in_range (invlink default_likelihood [[0, 0]] ! i) \<longrightarrow>
           V ! i = map (\<lambda>m. f64_div (f64_mul m (f64_sub (Fin 1) m))
                                    (f64_add (f64_sum (float_link default_likelihood [[0, 0]] ! i)) (Fin 1)))
                       (M ! i)"
    by blast
  have Me: "M = [[Fin (1/2), Fin (1/2)]]"
    using M mean_two_equal by simp
  have lV: "length V = 1" using lv Me by simp
  have "V ! 0 = [Fin (1/12), Fin (1/12)]"
    using e[rule_format, of 0] lV r by (simp add: a l S Me f64_sub_def rnd_moderate)
  with lV have "V = [[Fin (1/12), Fin (1/12)]]"
    by (cases V) auto
  then show ?thesis
    using M V Me r f by (simp add: a)
qed

text \<open>
  Adding \<open>1000\<close> to \<open>F = [[0, 0]]\<close> under the default link turns the mean
  \<open>[1/2, 1/2]\<close> into NaNs.
\<close>

theorem conditional_mean_shift_overflow:
  "conditional_mean default_likelihood (add_scalar [[0, 0]] 1000) = Inr [[NaN, NaN]]
   \<and> conditional_mean default_likelihood [[0, 0]] = Inr [[Fin (1/2), Fin (1/2)]]"
  using mean_overflow mean_two_equal by (simp add: add_scalar_def scalar_op_def)

text \<open>
  C10. Under the default link the mean does not change when a constant \<open>c\<close> is added
  to every entry of \<open>F\<close>, as long as the normalisation of every row of \<open>exp F\<close> and of
  \<open>exp (F + c)\<close> stays inside the float64 range. The variance and the log-density do
  change: at \<open>F = [[0, 0]]\<close> and the constant \<open>ln 2\<close> the variance goes from
  \<open>1/12\<close> to \<open>1/20\<close> and the log-density of \<open>[1/2, 1/2]\<close> from \<open>0\<close> to
  \<open>ln (3/2)\<close>.
\<close>

theorem conditional_mean_shift_invariant:
  "(list_all (\<lambda>row. mean_in_range (map exp row)
                    \<and> mean_in_range (map exp (map (\<lambda>f. f + c) row))) F \<longrightarrow>
      conditional_mean (self\<lparr>invlink := tf_exp\<rparr>) (add_scalar F c)
        = conditional_mean (self\<lparr>invlink := tf_exp\<rparr>) F)
   \<and> conditional_variance (self\<lparr>invlink := tf_exp\<rparr>) (add_scalar [[0, 0]] (ln 2))
     \<noteq> conditional_variance (self\<lparr>invlink := tf_exp\<rparr>) [[0, 0]]
   \<and> log_prob (self\<lparr>invlink := tf_exp\<rparr>) (add_scalar [[0, 0]] (ln 2)) [[1/2, 1/2]]
     \<noteq> log_prob (self\<lparr>invlink := tf_exp\<rparr>) [[0, 0]] [[1/2, 1/2]]"
proof (intro conjI impI)
  let ?D = "self\<lparr>invlink := tf_exp\<rparr>"
  assume rng: "list_all (\<lambda>row. mean_in_range (map exp row)
                    \<and> mean_in_range (map exp (map (\<lambda>f. f + c) row))) F"
  have "map (\<lambda>a. f64_div a (f64_sum (map rnd (map exp (map (\<lambda>f. f + c) row)))))
            (map rnd (map exp (map (\<lambda>f. f + c) row)))
        = map (\<lambda>a. f64_div a (f64_sum (map rnd (map exp row)))) (map rnd (map exp row))"
    if "row \<in> set F" for row
  proof -
    have 1: "mean_in_range (map exp row)" and 2: "mean_in_range (map exp (map (\<lambda>f. f + c) row))"
      using rng that by (simp_all add: list_all_iff)
    show ?thesis
      by (simp only: mean_row_exact[OF exp_row_pos 1] mean_row_exact[OF exp_row_pos 2]
            exp_shift_quotients)
  qed
  then show "conditional_mean ?D (add_scalar F c) = conditional_mean ?D F"
    by (simp add: conditional_mean_eq float_link_nth tf_exp_def add_scalar_def scalar_op_def)
next
  let ?D = "self\<lparr>invlink := tf_exp\<rparr>"
  show "conditional_variance ?D (add_scalar [[0, 0]] (ln 2)) \<noteq> conditional_variance ?D [[0, 0]]"
    by (simp add: conditional_variance_eq float_link_nth tf_exp_def add_scalar_def scalar_op_def
          f64_sum_def f64_sub_def f64_square_def rnd_0 rnd_moderate)
  have l: "map length (invlink ?D (add_scalar [[0, 0]] (ln 2))) = map length [[1/2, 1/2::real]]"
    and r: "map length (invlink ?D [[0, 0]]) = map length [[1/2, 1/2::real]]"
    by (simp_all add: tf_exp_def add_scalar_def scalar_op_def)
  have "ln 2 < ln (3::real)" by simp
  moreover have "ln (6::real) = ln 2 + ln 3"
    using ln_mult[of 2 "3::real"] by simp
  ultimately have "2 * ln (1/2) + ln (6::real) \<noteq> 0"
    by (simp add: ln_div)
  then show "log_prob ?D (add_scalar [[0, 0]] (ln 2)) [[1/2, 1/2]]
               \<noteq> log_prob ?D [[0, 0]] [[1/2, 1/2]]"
    unfolding log_prob_eq[OF l] log_prob_eq[OF r]
    by (simp add: add_scalar_def scalar_op_def fsum_Cons fsum_Nil fadd_Some fsub_Some fmul_Some
          lbeta_row_def lgamma_1 lgamma_2 lgamma_4 tf_exp_def xlogy_def tf_log_def)
qed

text \<open>The theorem at \<open>F = [[0, 0]]\<close> and the constant \<open>ln 2\<close>.\<close>

theorem conditional_mean_shift_invariant_witness:
  "list_all (\<lambda>row. mean_in_range (map exp row)
                   \<and> mean_in_range (map exp (map (\<lambda>f. f + ln 2) row))) [[0, 0]]
   \<and> conditional_mean default_likelihood (add_scalar [[0, 0]] (ln 2))
       = Inr [[Fin (1/2), Fin (1/2)]]
   \<and> conditional_mean default_likelihood [[0, 0]] = Inr [[Fin (1/2), Fin (1/2)]]"
proof -
  have n: "normal 1" "normal (1/2)" "normal 2"
    by (rule normal_moderate; simp)+
  have o: "(2::real) < f64_overflow" "(4::real) < f64_overflow"
    by (rule less_trans[OF _ overflow_gt]; simp)+
  have h: "list_all (\<lambda>row. mean_in_range (map exp row)
                   \<and> mean_in_range (map exp (map (\<lambda>f. f + ln 2) row))) [[0, 0]]"
    using n o min_normal_le_one by (simp add: mean_in_range_def)
  have d: "default_likelihood\<lparr>invlink := tf_exp\<rparr> = default_likelihood"
    by (simp add: default_likelihood_def)
  from conditional_mean_shift_invariant[of "ln 2" "[[0, 0]]" default_likelihood] h
  have "conditional_mean default_likelihood (add_scalar [[0, 0]] (ln 2))
          = conditional_mean default_likelihood [[0, 0]]"
    by (simp only: d)
  then show ?thesis
    using h mean_two_equal by simp
qed

end
